theory Spec2Isabelle
  imports Main "HOL-Library.Word"
begin

section \<open>JavaScript values that bot.js works with\<close>

text \<open>
  A JavaScript string is a sequence of UTF-16 code units. String literals of the source
  that are plain ASCII are written with \<open>str\<close>.
\<close>

type_synonym code_unit = "16 word"
type_synonym jsstring = "code_unit list"

definition str :: "string \<Rightarrow> jsstring" where
  "str s = map (\<lambda>c. of_nat (of_char c)) s"

text \<open>
  Numbers. \<open>Num n\<close> stands for the double whose value is the integer \<open>n\<close>, and
  \<open>NaN\<close> is kept because the source tests for it. Fractions and the infinities are not
  modelled, and \<open>js_sub\<close> is the exact difference: it is the double subtraction as long
  as the integers stay within \<open>2^53\<close> in magnitude, and says nothing of the rounding
  beyond. The numbers that \<open>parseTimecodes\<close> produces lie between 0 and 9999 (lemma
  \<open>parse_range\<close>), so their differences are exact.
\<close>

datatype jsnum = Num int | NaN

definition isNaN :: "jsnum \<Rightarrow> bool" where
  "isNaN v = (case v of NaN \<Rightarrow> True | Num _ \<Rightarrow> False)"

fun js_lt :: "jsnum \<Rightarrow> jsnum \<Rightarrow> bool" where
  "js_lt (Num a) (Num b) = (a < b)"
| "js_lt _ _ = False"

fun js_le :: "jsnum \<Rightarrow> jsnum \<Rightarrow> bool" where
  "js_le (Num a) (Num b) = (a \<le> b)"
| "js_le _ _ = False"

fun js_sub :: "jsnum \<Rightarrow> jsnum \<Rightarrow> jsnum" where
  "js_sub (Num a) (Num b) = Num (a - b)"
| "js_sub _ _ = NaN"

text \<open>A value as \<open>typeof v === 'number'\<close> sees it: a number, or anything else.\<close>

datatype jsval = NumberVal jsnum | OtherVal

subsection \<open>Character classes of the regular expressions\<close>

definition isDigit :: "code_unit \<Rightarrow> bool" where
  "isDigit c \<longleftrightarrow> 0x30 \<le> c \<and> c \<le> 0x39"

text \<open>\<open>\w\<close> without the unicode and ignoreCase flags: letters, digits and underscore.\<close>

definition isWordChar :: "code_unit \<Rightarrow> bool" where
  "isWordChar c \<longleftrightarrow>
     (0x61 \<le> c \<and> c \<le> 0x7A) \<or> (0x41 \<le> c \<and> c \<le> 0x5A) \<or> (0x30 \<le> c \<and> c \<le> 0x39) \<or> c = 0x5F"

text \<open>\<open>\s\<close>: the WhiteSpace and LineTerminator code points of ECMAScript.\<close>

definition isSpace :: "code_unit \<Rightarrow> bool" where
  "isSpace c \<longleftrightarrow>
     c = 0x09 \<or> c = 0x0A \<or> c = 0x0B \<or> c = 0x0C \<or> c = 0x0D \<or> c = 0x20 \<or> c = 0xA0 \<or>
     c = 0x1680 \<or> (0x2000 \<le> c \<and> c \<le> 0x200A) \<or> c = 0x2028 \<or> c = 0x2029 \<or>
     c = 0x202F \<or> c = 0x205F \<or> c = 0x3000 \<or> c = 0xFEFF"

definition colon :: code_unit where
  "colon = 0x3A"

subsection \<open>Number applied to a capture\<close>

definition digitValue :: "code_unit \<Rightarrow> int" where
  "digitValue c = uint c - 48"

definition decimal :: "jsstring \<Rightarrow> int" where
  "decimal s = foldl (\<lambda>acc c. 10 * acc + digitValue c) 0 s"

text \<open>
  \<open>Number(v)\<close> for \<open>v\<close> an element of a match array: \<open>undefined\<close> (a group that did
  not take part, \<open>None\<close>) gives \<open>NaN\<close>, the empty string gives 0, a string of decimal
  digits gives its value. The other numeric literal forms of StringToNumber (sign,
  fraction, exponent, radix prefix, Infinity, surrounding white space) are outside this
  model and are given \<open>NaN\<close>; \<open>parseTimecodes\<close> never passes one, see
  \<open>match_Some_first\<close>.
\<close>

definition Number_js :: "jsstring option \<Rightarrow> jsnum" where
  "Number_js v =
     (case v of
        None \<Rightarrow> NaN
      | Some s \<Rightarrow> if list_all isDigit s then Num (decimal s) else NaN)"

section \<open>The regular expression of parseTimecodes\<close>

text \<open>
  The matcher follows the ECMAScript semantics of regular expressions: a matcher takes a
  state and a continuation, and backtracking is a continuation that returned failure
  (\<open>None\<close>). The state is the input split at \<open>endIndex\<close>: the code units before it
  (nearest first) and those from it on, with the captures made so far.
\<close>

record mstate =
  consumed :: jsstring
  remaining :: jsstring
  captures :: "nat \<Rightarrow> jsstring option"

type_synonym continuation = "mstate \<Rightarrow> mstate option"
type_synonym matcher = "mstate \<Rightarrow> continuation \<Rightarrow> mstate option"

definition Seq :: "matcher \<Rightarrow> matcher \<Rightarrow> matcher" where
  "Seq m1 m2 x c = m1 x (\<lambda>y. m2 y c)"

text \<open>\<open>\b\<close>: exactly one of the code units before and at \<open>endIndex\<close> is a word character.\<close>

definition WordBoundary :: matcher where
  "WordBoundary x c =
     (let a = (case consumed x of [] \<Rightarrow> False | ch # _ \<Rightarrow> isWordChar ch);
          b = (case remaining x of [] \<Rightarrow> False | ch # _ \<Rightarrow> isWordChar ch)
      in if a \<noteq> b then c x else None)"

definition CharacterMatcher :: "code_unit \<Rightarrow> matcher" where
  "CharacterMatcher ch x c =
     (case remaining x of
        [] \<Rightarrow> None
      | ch' # rest \<Rightarrow>
          if ch' = ch then c (x\<lparr>consumed := ch' # consumed x, remaining := rest\<rparr>) else None)"

text \<open>
  A greedy quantifier \<open>{mn,mx}\<close> (\<open>mx = None\<close> for no upper bound) on a character class
  \<open>p\<close>: take one more code unit and go on; when that fails and the minimum is reached,
  continue from here.
\<close>

function RepeatMatcher :: "(code_unit \<Rightarrow> bool) \<Rightarrow> nat \<Rightarrow> nat option \<Rightarrow> matcher" where
  "RepeatMatcher p mn mx x c =
     (if mx = Some 0 then c x
      else (case remaining x of
              [] \<Rightarrow> if mn = 0 then c x else None
            | ch # rest \<Rightarrow>
                if p ch then
                  (case RepeatMatcher p (mn - 1) (map_option (\<lambda>m. m - 1) mx)
                          (x\<lparr>consumed := ch # consumed x, remaining := rest\<rparr>) c of
                     Some y \<Rightarrow> Some y
                   | None \<Rightarrow> if mn = 0 then c x else None)
                else if mn = 0 then c x else None))"
  by pat_completeness auto
termination
  by (relation "measure (\<lambda>(p, mn, mx, x, c). length (remaining x))") auto

declare RepeatMatcher.simps [simp del]

text \<open>A capturing group stores the input between the states before and after its body.\<close>

definition Group :: "nat \<Rightarrow> matcher \<Rightarrow> matcher" where
  "Group n m x c =
     m x (\<lambda>y. c (y\<lparr>captures := (captures y)
                     (n \<mapsto> take (length (consumed y) - length (consumed x)) (remaining x))\<rparr>))"

text \<open>\<^verbatim>\<open>/\b(\d{1,4})\s*:\s*(\d{1,4})\b/\<close>\<close>

definition timecodePattern :: matcher where
  "timecodePattern =
     Seq WordBoundary
    (Seq (Group 1 (RepeatMatcher isDigit 1 (Some 4)))
    (Seq (RepeatMatcher isSpace 0 None)
    (Seq (CharacterMatcher colon)
    (Seq (RepeatMatcher isSpace 0 None)
    (Seq (Group 2 (RepeatMatcher isDigit 1 (Some 4)))
         WordBoundary)))))"

text \<open>
  The match array of \<open>s.match(re)\<close>: the index where the match starts and the
  captures (elements 1, 2, ...). Element 0, the whole match, is never read by the program
  and is left out.
\<close>

record match_array =
  index :: nat
  groups :: "nat \<Rightarrow> jsstring option"

text \<open>
  \<open>RegExpExec\<close> without the global flag: try the pattern at index 0, 1, ... up to the
  length of the input and keep the first success.
\<close>

fun RegExpExec :: "matcher \<Rightarrow> jsstring \<Rightarrow> jsstring \<Rightarrow> match_array option" where
  "RegExpExec m seen [] =
     (case m \<lparr>consumed = seen, remaining = [], captures = \<lambda>_. None\<rparr> Some of
        Some y \<Rightarrow> Some \<lparr>index = length seen, groups = captures y\<rparr>
      | None \<Rightarrow> None)"
| "RegExpExec m seen (ch # rest) =
     (case m \<lparr>consumed = seen, remaining = ch # rest, captures = \<lambda>_. None\<rparr> Some of
        Some y \<Rightarrow> Some \<lparr>index = length seen, groups = captures y\<rparr>
      | None \<Rightarrow> RegExpExec m (ch # seen) rest)"

definition match_js :: "matcher \<Rightarrow> jsstring \<Rightarrow> match_array option" where
  "match_js m s = RegExpExec m [] s"

section \<open>parseTimecodes\<close>

datatype parse_reason = NotNumbers | EndNotAfterStart

datatype error_reason = UnexpectedParseFailure | InvalidTrimInterval | ExternalFailure | TypeError

datatype error = TimecodeParseError parse_reason | Error error_reason

record TrimRange =
  trim_start :: jsval
  trim_end :: jsval

definition parseTimecodes :: "jsstring option \<Rightarrow> error + TrimRange option" where
  "parseTimecodes rawText =
     (case rawText of
        None \<Rightarrow> Inr None
      | Some s \<Rightarrow>
          if s = [] then Inr None
          else (case match_js timecodePattern s of
                  None \<Rightarrow> Inr None
                | Some m \<Rightarrow>
                    (let start = Number_js (groups m 1); end = Number_js (groups m 2)
                     in if isNaN start \<or> isNaN end then Inl (TimecodeParseError NotNumbers)
                        else if js_lt start (Num 0) \<or> js_le end start
                          then Inl (TimecodeParseError EndNotAfterStart)
                        else Inr (Some \<lparr>trim_start = NumberVal start, trim_end = NumberVal end\<rparr>))))"

section \<open>What the specification calls a qualifying pattern\<close>

text \<open>
  The specification describes the pattern in words: two integers of 1 to 4 digits each,
  separated by a colon that may have white space on either side, standing alone as a token.
  A text that contains such a pattern is a text of the form
  \<open>pre @ g1 @ ws1 @ [colon] @ ws2 @ g2 @ post\<close>, where \<open>g1\<close> and \<open>g2\<close> are the two digit
  groups. In \<open>qualifying\<close>, standing alone is read as the word boundaries of the
  regular expression: no ASCII letter, digit or underscore directly before \<open>g1\<close> or
  directly after \<open>g2\<close>; any other code unit, a letter outside ASCII included, may stand
  there. In \<open>wordedQualifying\<close> it is read as the specification glosses it, not part of
  a longer run of digits: no digit directly before \<open>g1\<close> or directly after \<open>g2\<close>.
\<close>

definition digitToken :: "jsstring \<Rightarrow> bool" where
  "digitToken g \<longleftrightarrow> g \<noteq> [] \<and> length g \<le> 4 \<and> list_all isDigit g"

definition qualifying ::
  "jsstring \<Rightarrow> jsstring \<Rightarrow> jsstring \<Rightarrow> jsstring \<Rightarrow> jsstring \<Rightarrow> jsstring \<Rightarrow> bool" where
  "qualifying pre g1 ws1 ws2 g2 post \<longleftrightarrow>
     digitToken g1 \<and> digitToken g2 \<and> list_all isSpace ws1 \<and> list_all isSpace ws2 \<and>
     (pre = [] \<or> \<not> isWordChar (last pre)) \<and> (post = [] \<or> \<not> isWordChar (hd post))"

definition wordedQualifying ::
  "jsstring \<Rightarrow> jsstring \<Rightarrow> jsstring \<Rightarrow> jsstring \<Rightarrow> jsstring \<Rightarrow> jsstring \<Rightarrow> bool" where
  "wordedQualifying pre g1 ws1 ws2 g2 post \<longleftrightarrow>
     digitToken g1 \<and> digitToken g2 \<and> list_all isSpace ws1 \<and> list_all isSpace ws2 \<and>
     (pre = [] \<or> \<not> isDigit (last pre)) \<and> (post = [] \<or> \<not> isDigit (hd post))"

text \<open>A text that contains no qualifying pattern.\<close>

definition noQualifying :: "jsstring \<Rightarrow> bool" where
  "noQualifying t \<longleftrightarrow>
     (\<forall>pre g1 ws1 ws2 g2 post.
        t = pre @ g1 @ ws1 @ [colon] @ ws2 @ g2 @ post \<longrightarrow> \<not> qualifying pre g1 ws1 ws2 g2 post)"

text \<open>The first qualifying pattern of a text: none starts at an earlier index.\<close>

definition firstQualifying ::
  "jsstring \<Rightarrow> jsstring \<Rightarrow> jsstring \<Rightarrow> jsstring \<Rightarrow> jsstring \<Rightarrow> jsstring \<Rightarrow> jsstring \<Rightarrow> bool" where
  "firstQualifying t pre g1 ws1 ws2 g2 post \<longleftrightarrow>
     t = pre @ g1 @ ws1 @ [colon] @ ws2 @ g2 @ post \<and> qualifying pre g1 ws1 ws2 g2 post \<and>
     (\<forall>pre' g1' ws1' ws2' g2' post'.
        t = pre' @ g1' @ ws1' @ [colon] @ ws2' @ g2' @ post' \<and> qualifying pre' g1' ws1' ws2' g2' post'
        \<longrightarrow> length pre \<le> length pre')"

text \<open>The record that a successful parse returns for the digit groups \<open>g1\<close>, \<open>g2\<close>.\<close>

definition rangeOf :: "jsstring \<Rightarrow> jsstring \<Rightarrow> TrimRange" where
  "rangeOf g1 g2 = \<lparr>trim_start = NumberVal (Num (decimal g1)), trim_end = NumberVal (Num (decimal g2))\<rparr>"

section \<open>isAudioDocument\<close>

text \<open>
  Telegram's description of an attached file, as far as the program reads it. A field
  that is absent (\<open>undefined\<close>) is \<open>None\<close>.
\<close>

record attachment =
  file_id :: jsstring
  file_unique_id :: jsstring
  file_name :: "jsstring option"
  mime_type :: "jsstring option"

definition startsWith :: "jsstring \<Rightarrow> jsstring \<Rightarrow> bool" where
  "startsWith s p \<longleftrightarrow> take (length p) s = p"

definition endsWith :: "jsstring \<Rightarrow> jsstring \<Rightarrow> bool" where
  "endsWith s p \<longleftrightarrow> length p \<le> length s \<and> drop (length s - length p) s = p"

text \<open>
  Canonicalize of a regular expression with the ignoreCase flag and without the unicode
  flag: the upper case of the code unit, except that a code unit of 128 or more never
  becomes one below 128. On ASCII that is the map of \<open>a-z\<close> to \<open>A-Z\<close>. The upper case of a
  code unit of 128 or more is not modelled: it stays 128 or more, so it is never equal to
  the canonical form of one of the ASCII characters of the pattern, which is all that the
  pattern below asks of it.
\<close>

definition Canonicalize :: "code_unit \<Rightarrow> code_unit" where
  "Canonicalize ch = (if 0x61 \<le> ch \<and> ch \<le> 0x7A then ch - 0x20 else ch)"

definition CharacterMatcherI :: "code_unit \<Rightarrow> matcher" where
  "CharacterMatcherI ch x c =
     (case remaining x of
        [] \<Rightarrow> None
      | ch' # rest \<Rightarrow>
          if Canonicalize ch' = Canonicalize ch
          then c (x\<lparr>consumed := ch' # consumed x, remaining := rest\<rparr>) else None)"

text \<open>A sequence of pattern characters, a disjunction, and the assertion \<open>$\<close>.\<close>

fun Literal :: "jsstring \<Rightarrow> matcher" where
  "Literal [] x c = c x"
| "Literal (ch # s) x c = CharacterMatcherI ch x (\<lambda>y. Literal s y c)"

definition Alt :: "matcher \<Rightarrow> matcher \<Rightarrow> matcher" where
  "Alt m1 m2 x c = (case m1 x c of Some y \<Rightarrow> Some y | None \<Rightarrow> m2 x c)"

definition AssertEnd :: matcher where
  "AssertEnd x c = (if remaining x = [] then c x else None)"

definition dot :: code_unit where
  "dot = 0x2E"

text \<open>\<^verbatim>\<open>/\.(mp3|wav|m4a|flac|aac|ogg|oga)$/i\<close>\<close>

definition audioExtensionPattern :: matcher where
  "audioExtensionPattern =
     Seq (CharacterMatcherI dot)
    (Seq (Group 1
           (Alt (Literal (str ''mp3''))
           (Alt (Literal (str ''wav''))
           (Alt (Literal (str ''m4a''))
           (Alt (Literal (str ''flac''))
           (Alt (Literal (str ''aac''))
           (Alt (Literal (str ''ogg''))
                (Literal (str ''oga'')))))))))
         AssertEnd)"

definition isAudioDocument :: "attachment option \<Rightarrow> bool" where
  "isAudioDocument document =
     (case document of
        None \<Rightarrow> False
      | Some d \<Rightarrow>
          if (case mime_type d of None \<Rightarrow> False
              | Some mt \<Rightarrow> mt \<noteq> [] \<and> startsWith mt (str ''audio/''))
          then True
          else (case file_name d of None \<Rightarrow> False
                | Some n \<Rightarrow> n \<noteq> [] \<and> match_js audioExtensionPattern n \<noteq> None))"

text \<open>
  The classification as the specification words it: the MIME type starts with
  \<open>audio/\<close>, or the file name ends with one of the listed extensions. \<open>claimedAudio\<close>
  compares the extension as written; \<open>audioByExtension\<close> compares it without regard
  to the case of ASCII letters.
\<close>

definition audioExtensions :: "jsstring list" where
  "audioExtensions = map str [''.mp3'', ''.wav'', ''.m4a'', ''.flac'', ''.aac'', ''.ogg'', ''.oga'']"

definition mimeIsAudio :: "attachment \<Rightarrow> bool" where
  "mimeIsAudio d = (case mime_type d of None \<Rightarrow> False | Some mt \<Rightarrow> startsWith mt (str ''audio/''))"

definition claimedAudio :: "attachment \<Rightarrow> bool" where
  "claimedAudio d \<longleftrightarrow>
     mimeIsAudio d \<or>
     (case file_name d of None \<Rightarrow> False | Some n \<Rightarrow> list_ex (endsWith n) audioExtensions)"

definition toLowerASCII :: "code_unit \<Rightarrow> code_unit" where
  "toLowerASCII ch = (if 0x41 \<le> ch \<and> ch \<le> 0x5A then ch + 0x20 else ch)"

definition audioByExtension :: "attachment \<Rightarrow> bool" where
  "audioByExtension d \<longleftrightarrow>
     mimeIsAudio d \<or>
     (case file_name d of None \<Rightarrow> False
      | Some n \<Rightarrow> list_ex (endsWith (map toLowerASCII n)) audioExtensions)"

section \<open>convertToVoice\<close>

text \<open>
  The fluent-ffmpeg command that the program builds. Running it is the business of the
  external transcoder; what the program decides is the command.
\<close>

type_synonym path = jsstring

record ffmpeg_command =
  cmd_input :: path
  cmd_startTime :: "jsnum option"
  cmd_duration :: "jsnum option"
  cmd_outputOptions :: "string list"
  cmd_format :: "string option"
  cmd_output :: "path option"

definition ffmpeg :: "path \<Rightarrow> ffmpeg_command" where
  "ffmpeg inputPath =
     \<lparr>cmd_input = inputPath, cmd_startTime = None, cmd_duration = None,
      cmd_outputOptions = [], cmd_format = None, cmd_output = None\<rparr>"

definition setStartTime :: "jsnum \<Rightarrow> ffmpeg_command \<Rightarrow> ffmpeg_command" where
  "setStartTime t command = command\<lparr>cmd_startTime := Some t\<rparr>"

definition setDuration :: "jsnum \<Rightarrow> ffmpeg_command \<Rightarrow> ffmpeg_command" where
  "setDuration d command = command\<lparr>cmd_duration := Some d\<rparr>"

definition outputOptions :: "string list \<Rightarrow> ffmpeg_command \<Rightarrow> ffmpeg_command" where
  "outputOptions opts command = command\<lparr>cmd_outputOptions := cmd_outputOptions command @ opts\<rparr>"

definition format :: "string \<Rightarrow> ffmpeg_command \<Rightarrow> ffmpeg_command" where
  "format f command = command\<lparr>cmd_format := Some f\<rparr>"

definition save :: "path \<Rightarrow> ffmpeg_command \<Rightarrow> ffmpeg_command" where
  "save outputPath command = command\<lparr>cmd_output := Some outputPath\<rparr>"

definition voiceOptions :: "string list" where
  "voiceOptions = [''-acodec libopus'', ''-b:a 48k'', ''-ac 1'', ''-ar 48000'', ''-vn'']"

text \<open>
  src/src/bot.js. \<open>Inl\<close> is the promise rejected before any command is built, \<open>Inr\<close>
  the command that is run.
\<close>

definition convertToVoice :: "path \<Rightarrow> path \<Rightarrow> TrimRange option \<Rightarrow> error + ffmpeg_command" where
  "convertToVoice inputPath outputPath trimRange =
     (let startTime =
            (case trimRange of
               None \<Rightarrow> None
             | Some tr \<Rightarrow> (case trim_start tr of NumberVal s \<Rightarrow> Some s | OtherVal \<Rightarrow> None));
          checked =
            (case trimRange of
               None \<Rightarrow> Inr None
             | Some tr \<Rightarrow>
                 (case trim_end tr of
                    OtherVal \<Rightarrow> Inr None
                  | NumberVal e \<Rightarrow>
                      (let base = (case trim_start tr of NumberVal s \<Rightarrow> s | OtherVal \<Rightarrow> Num 0);
                           calculatedDuration = js_sub e base
                       in if js_le calculatedDuration (Num 0) then Inl (Error InvalidTrimInterval)
                          else Inr (Some calculatedDuration))))
      in case checked of
           Inl e \<Rightarrow> Inl e
         | Inr duration \<Rightarrow>
             (let command0 = ffmpeg inputPath;
                  command1 = (case startTime of Some t \<Rightarrow> setStartTime t command0 | None \<Rightarrow> command0);
                  command2 = (case duration of Some d \<Rightarrow> setDuration d command1 | None \<Rightarrow> command1)
              in Inr (save outputPath (format ''ogg'' (outputOptions voiceOptions command2)))))"

text \<open>src/unnamed/part_000: the earlier file, with no trim parameter.\<close>

definition convertToVoice_part000 :: "path \<Rightarrow> path \<Rightarrow> ffmpeg_command" where
  "convertToVoice_part000 inputPath outputPath =
     save outputPath (format ''ogg'' (outputOptions voiceOptions (ffmpeg inputPath)))"

section \<open>processAudio and the handlers\<close>

text \<open>
  The program talks to Telegram, the file system, an HTTP server and ffmpeg. What these do
  is given from outside, as a \<open>world\<close>: whether each call succeeds, the names that
  \<open>Date.now()\<close> and \<open>crypto.randomUUID()\<close> produce for the two temporary files, and
  Node's \<open>path.join\<close>, \<open>path.extname\<close> and \<open>os.tmpdir()\<close>, which depend on the
  platform. A run of a handler is the list of the
  calls it makes, in order, with how its promise settles (\<open>Inl\<close>: rejected). Each
  awaited call is taken to settle.
\<close>

record world =
  tmpdir :: path
  pathJoin :: "jsstring \<Rightarrow> jsstring \<Rightarrow> jsstring"
  stamp :: "nat \<Rightarrow> jsstring"
  extname :: "jsstring \<Rightarrow> jsstring"
  mkdirOk :: bool
  fileLink :: "jsstring option"
  downloadOk :: bool
  chatActionOk :: bool
  transcodeOk :: bool
  replyVoiceOk :: bool
  unlinkInputOk :: bool
  unlinkOutputOk :: bool
  replyOk :: bool

datatype reply_text = Greeting | TimecodeHint | TimecodeTrouble | ProcessingFailed | GenericFailure

datatype log_tag = ParseAudio | ParseDocument | ProcessAudioMessage | ProcessDocumentMessage | Global

datatype event =
    Mkdir path
  | GetFileLink jsstring
  | Download jsstring path
  | SendChatAction string
  | Transcode ffmpeg_command
  | ReplyWithVoice path
  | Unlink path
  | Reply reply_text
  | ConsoleError log_tag error
  | Next

type_synonym outcome = "error + unit"
type_synonym run = "event list \<times> outcome"

definition settled :: "bool \<Rightarrow> outcome" where
  "settled ok = (if ok then Inr () else Inl (Error ExternalFailure))"

definition tmpRoot :: "world \<Rightarrow> path" where
  "tmpRoot w = pathJoin w (tmpdir w) (str ''audio-tools-bot'')"

definition buildTempPath :: "world \<Rightarrow> nat \<Rightarrow> jsstring \<Rightarrow> path" where
  "buildTempPath w n ext =
     (let suffix = (if startsWith ext (str ''.'') then ext else if ext \<noteq> [] then str ''.'' @ ext else [])
      in pathJoin w (tmpRoot w) (stamp w n @ suffix))"

text \<open>
  One awaited external call, and sequencing: what follows a rejected promise does not run.
\<close>

definition call :: "event \<Rightarrow> bool \<Rightarrow> run" where
  "call ev ok = ([ev], settled ok)"

definition andThen :: "run \<Rightarrow> run \<Rightarrow> run" where
  "andThen first rest =
     (case snd first of
        Inl e \<Rightarrow> (fst first, Inl e)
      | Inr _ \<Rightarrow> (fst first @ fst rest, snd rest))"

text \<open>
  \<open>try { body } finally { cleanup }\<close>: the cleanup always runs; the statement settles as
  the body did unless the cleanup itself is rejected.
\<close>

definition tryFinally :: "run \<Rightarrow> run \<Rightarrow> run" where
  "tryFinally body cleanup =
     (fst body @ fst cleanup,
      case snd cleanup of Inl e \<Rightarrow> Inl e | Inr _ \<Rightarrow> snd body)"

text \<open>\<open>fsPromises.unlink(p).catch(() => {})\<close> and \<open>Promise.allSettled\<close>.\<close>

definition unlinkQuietly :: "path \<Rightarrow> bool \<Rightarrow> run" where
  "unlinkQuietly p ok = ([Unlink p], case settled ok of Inl _ \<Rightarrow> Inr () | Inr u \<Rightarrow> Inr u)"

definition allSettled :: "run list \<Rightarrow> run" where
  "allSettled rs = (concat (map fst rs), Inr ())"

definition js_or :: "jsstring option \<Rightarrow> jsstring \<Rightarrow> jsstring" where
  "js_or a b = (case a of None \<Rightarrow> b | Some s \<Rightarrow> if s = [] then b else s)"

definition processAudio :: "world \<Rightarrow> jsstring \<Rightarrow> jsstring \<Rightarrow> TrimRange option \<Rightarrow> run" where
  "processAudio w fileId filenameHint trimRange =
     andThen (call (Mkdir (tmpRoot w)) (mkdirOk w))
       (let inputExt = (if extname w filenameHint \<noteq> [] then extname w filenameHint else str ''.tmp'');
            inputPath = buildTempPath w 0 inputExt;
            outputPath = buildTempPath w 1 (str ''.ogg'')
        in tryFinally
             (case fileLink w of
                None \<Rightarrow> call (GetFileLink fileId) False
              | Some href \<Rightarrow>
                  andThen (call (GetFileLink fileId) True)
                 (andThen (call (Download href inputPath) (downloadOk w))
                 (andThen (call (SendChatAction ''record_voice'') (chatActionOk w))
                 (andThen (case convertToVoice inputPath outputPath trimRange of
                             Inl e \<Rightarrow> ([], Inl e)
                           | Inr command \<Rightarrow> call (Transcode command) (transcodeOk w))
                          (call (ReplyWithVoice outputPath) (replyVoiceOk w))))))
             (allSettled [unlinkQuietly inputPath (unlinkInputOk w),
                          unlinkQuietly outputPath (unlinkOutputOk w)]))"

record message =
  msg_caption :: "jsstring option"
  msg_text :: "jsstring option"
  msg_audio :: "attachment option"
  msg_document :: "attachment option"

definition extractTimecodesFromMessage :: "message \<Rightarrow> error + TrimRange option" where
  "extractTimecodesFromMessage message =
     (let raw = js_or (msg_caption message) (js_or (msg_text message) [])
      in case parseTimecodes (Some raw) of
           Inl (TimecodeParseError r) \<Rightarrow> Inl (TimecodeParseError r)
         | Inl (Error r) \<Rightarrow> Inl (Error UnexpectedParseFailure)
         | Inr trimRange \<Rightarrow> Inr trimRange)"

text \<open>
  \<open>bot.on('audio', ...)\<close>. The fields of \<open>ctx.message.audio\<close> are read inside the
  second \<open>try\<close>, so an absent attachment is a TypeError caught there.
\<close>

definition onAudio :: "world \<Rightarrow> message \<Rightarrow> run" where
  "onAudio w message =
     (case extractTimecodesFromMessage message of
        Inl (TimecodeParseError r) \<Rightarrow> call (Reply TimecodeHint) (replyOk w)
      | Inl (Error r) \<Rightarrow>
          andThen ([ConsoleError ParseAudio (Error r)], Inr ())
                  (call (Reply TimecodeTrouble) (replyOk w))
      | Inr trimRange \<Rightarrow>
          (let body = (case msg_audio message of
                         None \<Rightarrow> ([], Inl (Error TypeError))
                       | Some audio \<Rightarrow>
                           processAudio w (file_id audio)
                             (js_or (file_name audio) (file_unique_id audio)) trimRange)
           in case snd body of
                Inr _ \<Rightarrow> body
              | Inl e \<Rightarrow>
                  andThen (fst body @ [ConsoleError ProcessAudioMessage e], Inr ())
                          (call (Reply ProcessingFailed) (replyOk w))))"

text \<open>
  \<open>bot.on('document', ...)\<close>. \<open>hasNext\<close>: whether Telegraf passed a next handler; what
  that handler does is not part of this program.
\<close>

definition onDocument :: "world \<Rightarrow> message \<Rightarrow> bool \<Rightarrow> run" where
  "onDocument w message hasNext =
     (if \<not> isAudioDocument (msg_document message)
      then (if hasNext then ([Next], Inr ()) else ([], Inr ()))
      else
        (case extractTimecodesFromMessage message of
           Inl (TimecodeParseError r) \<Rightarrow> call (Reply TimecodeHint) (replyOk w)
         | Inl (Error r) \<Rightarrow>
             andThen ([ConsoleError ParseDocument (Error r)], Inr ())
                     (call (Reply TimecodeTrouble) (replyOk w))
         | Inr trimRange \<Rightarrow>
             (let body = (case msg_document message of
                            None \<Rightarrow> ([], Inl (Error TypeError))
                          | Some document \<Rightarrow>
                              processAudio w (file_id document)
                                (js_or (file_name document) (file_unique_id document)) trimRange)
              in case snd body of
                   Inr _ \<Rightarrow> body
                 | Inl e \<Rightarrow>
                     andThen (fst body @ [ConsoleError ProcessDocumentMessage e], Inr ())
                             (call (Reply ProcessingFailed) (replyOk w)))))"

text \<open>The calls that fetch, transcode or touch temporary files.\<close>

fun isTransferEvent :: "event \<Rightarrow> bool" where
  "isTransferEvent (Mkdir _) = True"
| "isTransferEvent (GetFileLink _) = True"
| "isTransferEvent (Download _ _) = True"
| "isTransferEvent (Transcode _) = True"
| "isTransferEvent (ReplyWithVoice _) = True"
| "isTransferEvent (Unlink _) = True"
| "isTransferEvent _ = False"

text \<open>
  For examples: Node's \<open>path.extname\<close> and \<open>path.join\<close> (of two arguments) on a POSIX
  system. The extension is what follows the last dot of the last path segment, unless that
  segment has no dot, starts with its only dot, or is \<open>..\<close>. Joining puts a slash between
  the non-empty arguments and normalises: empty and \<open>.\<close> segments go, \<open>..\<close> removes the
  segment before it.
\<close>

definition slash :: code_unit where
  "slash = 0x2F"

definition posixBasename :: "jsstring \<Rightarrow> jsstring" where
  "posixBasename p = rev (takeWhile (\<lambda>c. c \<noteq> slash) (dropWhile (\<lambda>c. c = slash) (rev p)))"

definition posixExtname :: "jsstring \<Rightarrow> jsstring" where
  "posixExtname p =
     (let base = posixBasename p;
          afterDot = rev (takeWhile (\<lambda>c. c \<noteq> dot) (rev base));
          upToDot = rev (dropWhile (\<lambda>c. c \<noteq> dot) (rev base))
      in if upToDot = [] \<or> upToDot = [dot] \<or> base = [dot, dot] then []
         else dot # afterDot)"

fun splitOn :: "code_unit \<Rightarrow> jsstring \<Rightarrow> jsstring list" where
  "splitOn c [] = [[]]"
| "splitOn c (x # xs) =
     (if x = c then [] # splitOn c xs
      else (case splitOn c xs of s # ss \<Rightarrow> (x # s) # ss | [] \<Rightarrow> [[x]]))"

fun normalizeSegments :: "bool \<Rightarrow> jsstring list \<Rightarrow> jsstring list \<Rightarrow> jsstring list" where
  "normalizeSegments allowAboveRoot kept [] = rev kept"
| "normalizeSegments allowAboveRoot kept (seg # segs) =
     (if seg = [] \<or> seg = [dot] then normalizeSegments allowAboveRoot kept segs
      else if seg = [dot, dot] then
        (case kept of
           [] \<Rightarrow> normalizeSegments allowAboveRoot (if allowAboveRoot then [seg] else []) segs
         | newest # older \<Rightarrow>
             if newest = [dot, dot] then normalizeSegments allowAboveRoot (seg # kept) segs
             else normalizeSegments allowAboveRoot older segs)
      else normalizeSegments allowAboveRoot (seg # kept) segs)"

fun joinWith :: "code_unit \<Rightarrow> jsstring list \<Rightarrow> jsstring" where
  "joinWith c [] = []"
| "joinWith c [s] = s"
| "joinWith c (s # ss) = s @ c # joinWith c ss"

definition posixNormalize :: "jsstring \<Rightarrow> jsstring" where
  "posixNormalize p =
     (if p = [] then [dot]
      else
        (let isAbsolute = (hd p = slash);
             trailingSeparator = (last p = slash);
             res = joinWith slash (normalizeSegments (\<not> isAbsolute) [] (splitOn slash p))
         in if res = [] then (if isAbsolute then [slash] else if trailingSeparator then [dot, slash] else [dot])
            else (if isAbsolute then [slash] else []) @ res @ (if trailingSeparator then [slash] else [])))"

definition posixJoin :: "jsstring \<Rightarrow> jsstring \<Rightarrow> jsstring" where
  "posixJoin a b =
     (let parts = filter (\<lambda>s. s \<noteq> []) [a, b]
      in if parts = [] then [dot] else posixNormalize (joinWith slash parts))"

text \<open>A POSIX world in which every call succeeds.\<close>

definition sampleWorld :: world where
  "sampleWorld =
     \<lparr>tmpdir = str ''/tmp'', pathJoin = posixJoin,
      stamp = (\<lambda>n. if n = 0 then str ''1700000000000-a'' else str ''1700000000001-b''),
      extname = posixExtname, mkdirOk = True, fileLink = Some (str ''https://files.example/voice''),
      downloadOk = True, chatActionOk = True, transcodeOk = True, replyVoiceOk = True,
      unlinkInputOk = True, unlinkOutputOk = True, replyOk = True\<rparr>"

section \<open>Auxiliary notions for the proofs\<close>

text \<open>The state \<open>k\<close> code units further on, and the bound of a quantifier.\<close>

definition advance :: "nat \<Rightarrow> mstate \<Rightarrow> mstate" where
  "advance k x = x\<lparr>consumed := rev (take k (remaining x)) @ consumed x, remaining := drop k (remaining x)\<rparr>"

definition withinMax :: "nat \<Rightarrow> nat option \<Rightarrow> bool" where
  "withinMax n mx = (case mx of None \<Rightarrow> True | Some m \<Rightarrow> n \<le> m)"

definition nextIsWord :: "jsstring \<Rightarrow> bool" where
  "nextIsWord r = (case r of [] \<Rightarrow> False | ch # _ \<Rightarrow> isWordChar ch)"

text \<open>The timecode pattern after its first group, and after the colon.\<close>

definition afterColon :: matcher where
  "afterColon = Seq (RepeatMatcher isSpace 0 None)
                 (Seq (Group 2 (RepeatMatcher isDigit 1 (Some 4))) WordBoundary)"

definition afterGroup1 :: matcher where
  "afterGroup1 = Seq (RepeatMatcher isSpace 0 None) (Seq (CharacterMatcher colon) afterColon)"

text \<open>The two temporary paths of a request, as \<open>processAudio\<close> builds them.\<close>

definition inputPathOf :: "world \<Rightarrow> jsstring \<Rightarrow> path" where
  "inputPathOf w filenameHint =
     buildTempPath w 0 (if extname w filenameHint \<noteq> [] then extname w filenameHint else str ''.tmp'')"

definition outputPathOf :: "world \<Rightarrow> path" where
  "outputPathOf w = buildTempPath w 1 (str ''.ogg'')"

text \<open>
  The command the specification asks for: Opus in an Ogg container at 48 kbit/s, one
  channel, 48 kHz, no video, with the given start time and duration if any.
\<close>

definition voiceCommand :: "path \<Rightarrow> path \<Rightarrow> jsnum option \<Rightarrow> jsnum option \<Rightarrow> ffmpeg_command" where
  "voiceCommand inputPath outputPath startTime duration =
     \<lparr>cmd_input = inputPath, cmd_startTime = startTime, cmd_duration = duration,
      cmd_outputOptions = [''-acodec libopus'', ''-b:a 48k'', ''-ac 1'', ''-ar 48000'', ''-vn''],
      cmd_format = Some ''ogg'', cmd_output = Some outputPath\<rparr>"

abbreviation startState :: "jsstring \<Rightarrow> jsstring \<Rightarrow> mstate" where
  "startState seen r \<equiv> \<lparr>consumed = seen, remaining = r, captures = \<lambda>_. None\<rparr>"

section \<open>The greedy quantifier\<close>

lemma advance_0 [simp]: "advance 0 x = x"
  by (simp add: advance_def)

lemma advance_Suc:
  "remaining x = ch # rest \<Longrightarrow>
   advance k (x\<lparr>consumed := ch # consumed x, remaining := rest\<rparr>) = advance (Suc k) x"
  by (simp add: advance_def)

lemma RepeatMatcher_greedy:
  "withinMax mn mx \<Longrightarrow>
   (\<And>k. mn \<le> k \<Longrightarrow> k < length (takeWhile p (remaining x)) \<Longrightarrow> withinMax k mx \<Longrightarrow> c (advance k x) = None) \<Longrightarrow>
   RepeatMatcher p mn mx x c =
     (if mn \<le> length (takeWhile p (remaining x)) \<and> withinMax (length (takeWhile p (remaining x))) mx
      then c (advance (length (takeWhile p (remaining x))) x) else None)"
proof (induction p mn mx x c rule: RepeatMatcher.induct)
  case (1 p mn mx x c)
  show ?case
  proof (cases "mx = Some 0")
    case True
    with "1.prems"(1) have mn0: "mn = 0" by (simp add: withinMax_def)
    show ?thesis
    proof (cases "takeWhile p (remaining x)")
      case Nil
      then show ?thesis using True mn0 by (simp add: RepeatMatcher.simps withinMax_def)
    next
      case (Cons a as)
      then have "c (advance 0 x) = None"
        using "1.prems"(2)[of 0] mn0 True by (simp add: withinMax_def)
      then show ?thesis using True mn0 Cons by (simp add: RepeatMatcher.simps withinMax_def)
    qed
  next
    case False
    show ?thesis
    proof (cases "remaining x")
      case Nil
      then show ?thesis using False by (simp add: RepeatMatcher.simps withinMax_def split: option.splits)
    next
      case (Cons ch rest)
      show ?thesis
      proof (cases "p ch")
        case pf: False
        then show ?thesis using False Cons
          by (simp add: RepeatMatcher.simps withinMax_def split: option.splits)
      next
        case pt: True
        let ?x' = "x\<lparr>consumed := ch # consumed x, remaining := rest\<rparr>"
        let ?mx' = "map_option (\<lambda>m. m - 1) mx"
        have wm: "withinMax (mn - 1) ?mx'"
          using "1.prems"(1) by (auto simp: withinMax_def split: option.splits)
        have sh: "\<And>k. mn - 1 \<le> k \<Longrightarrow> k < length (takeWhile p (remaining ?x')) \<Longrightarrow> withinMax k ?mx' \<Longrightarrow> c (advance k ?x') = None"
        proof -
          fix k assume a: "mn - 1 \<le> k" "k < length (takeWhile p (remaining ?x'))" "withinMax k ?mx'"
          have "c (advance (Suc k) x) = None"
            apply (rule "1.prems"(2))
            using a Cons pt False by (auto simp: withinMax_def split: option.splits)
          then show "c (advance k ?x') = None" using advance_Suc[OF Cons] by simp
        qed
        have ih: "RepeatMatcher p (mn - 1) ?mx' ?x' c =
            (if mn - 1 \<le> length (takeWhile p (remaining ?x')) \<and> withinMax (length (takeWhile p (remaining ?x'))) ?mx'
             then c (advance (length (takeWhile p (remaining ?x'))) ?x') else None)"
          using "1.IH"[OF False Cons pt wm sh] by simp
        have cx: "mn = 0 \<Longrightarrow> c x = None"
          using "1.prems"(2)[of 0] Cons pt "1.prems"(1) by (auto simp: withinMax_def split: option.splits)
        have unf: "RepeatMatcher p mn mx x c = RepeatMatcher p (mn - 1) ?mx' ?x' c"
          using False Cons pt cx
          by (subst RepeatMatcher.simps) (auto split: option.splits)
        show ?thesis
          unfolding unf ih using Cons pt False advance_Suc[OF Cons]
          by (auto simp: withinMax_def split: option.splits)
      qed
    qed
  qed
qed

lemma digit_word: "isDigit c \<Longrightarrow> isWordChar c"
  by (simp add: isDigit_def isWordChar_def)

lemma digit_not_space: "isDigit c \<Longrightarrow> \<not> isSpace c"
  unfolding isDigit_def isSpace_def word_le_nat_alt word_unat_eq_iff by simp

lemma digit_not_colon: "isDigit c \<Longrightarrow> c \<noteq> colon"
  unfolding isDigit_def colon_def word_le_nat_alt word_unat_eq_iff by simp

lemma space_not_colon: "isSpace c \<Longrightarrow> c \<noteq> colon"
  unfolding isSpace_def colon_def word_le_nat_alt word_unat_eq_iff by auto

lemma space_not_word: "isSpace c \<Longrightarrow> \<not> isWordChar c"
  unfolding isSpace_def isWordChar_def word_le_nat_alt word_unat_eq_iff by auto

lemma colon_not_word: "\<not> isWordChar colon"
  by (simp add: isWordChar_def colon_def)

lemma drop_in_run:
  "k < length (takeWhile p xs) \<Longrightarrow> \<exists>ch r. drop k xs = ch # r \<and> p ch"
proof -
  assume a: "k < length (takeWhile p xs)"
  have le: "length (takeWhile p xs) \<le> length xs" by (rule length_takeWhile_le)
  have "p (xs ! k)" using a by (metis nth_mem set_takeWhileD takeWhile_nth)
  moreover have "drop k xs = xs ! k # drop (Suc k) xs"
    using a le by (simp add: Cons_nth_drop_Suc)
  ultimately show ?thesis by blast
qed

lemma rev_take_in_run:
  "0 < k \<Longrightarrow> k \<le> length (takeWhile p xs) \<Longrightarrow> \<exists>ch r. rev (take k xs) = ch # r \<and> p ch"
proof -
  assume a: "0 < k" "k \<le> length (takeWhile p xs)"
  have le: "length (takeWhile p xs) \<le> length xs" by (rule length_takeWhile_le)
  obtain j where j: "k = Suc j" using a(1) by (cases k) auto
  have "p (xs ! j)" using a j by (metis Suc_le_lessD nth_mem set_takeWhileD takeWhile_nth)
  moreover have "take k xs = take j xs @ [xs ! j]"
    using a le j by (simp add: take_Suc_conv_app_nth)
  ultimately show ?thesis by simp
qed

lemma take_run: "take (length (takeWhile p xs)) xs = takeWhile p xs"
  by (simp add: takeWhile_eq_take[symmetric])

lemma drop_run: "drop (length (takeWhile p xs)) xs = dropWhile p xs"
  by (simp add: dropWhile_eq_drop[symmetric])

lemma advance_run:
  "advance (length (takeWhile p (remaining x))) x =
     x\<lparr>consumed := rev (takeWhile p (remaining x)) @ consumed x,
       remaining := dropWhile p (remaining x)\<rparr>"
  by (simp add: advance_def take_run drop_run)

lemma WordBoundary_alt:
  "WordBoundary x c = (if nextIsWord (consumed x) \<noteq> nextIsWord (remaining x) then c x else None)"
  by (simp add: WordBoundary_def nextIsWord_def Let_def)

lemma stage_group2:
  "Seq (Group 2 (RepeatMatcher isDigit 1 (Some 4))) WordBoundary z c =
     (if 1 \<le> length (takeWhile isDigit (remaining z)) \<and> length (takeWhile isDigit (remaining z)) \<le> 4
         \<and> \<not> nextIsWord (dropWhile isDigit (remaining z))
      then c ((advance (length (takeWhile isDigit (remaining z))) z)
                \<lparr>captures := (captures z)(2 \<mapsto> takeWhile isDigit (remaining z))\<rparr>)
      else None)"
proof -
  let ?k = "\<lambda>y. WordBoundary (y\<lparr>captures := (captures y)
                     (2 \<mapsto> take (length (consumed y) - length (consumed z)) (remaining z))\<rparr>) c"
  let ?n = "length (takeWhile isDigit (remaining z))"
  have short: "\<And>k. 1 \<le> k \<Longrightarrow> k < ?n \<Longrightarrow> withinMax k (Some 4) \<Longrightarrow> ?k (advance k z) = None"
  proof -
    fix k assume a: "1 \<le> k" "k < ?n"
    obtain ch r where d: "drop k (remaining z) = ch # r" "isDigit ch"
      using drop_in_run[OF a(2)] by blast
    from a have pos: "0 < k" and le: "k \<le> ?n" by linarith+
    obtain ch' r' where t: "rev (take k (remaining z)) = ch' # r'" "isDigit ch'"
      using rev_take_in_run[OF pos le] by blast
    show "?k (advance k z) = None"
      using d t by (simp add: WordBoundary_alt advance_def nextIsWord_def digit_word)
  qed
  have rm: "RepeatMatcher isDigit 1 (Some 4) z ?k =
     (if 1 \<le> ?n \<and> withinMax ?n (Some 4) then ?k (advance ?n z) else None)"
    by (rule RepeatMatcher_greedy) (simp_all add: withinMax_def short)
  have fin: "1 \<le> ?n \<Longrightarrow> ?k (advance ?n z) =
      (if \<not> nextIsWord (dropWhile isDigit (remaining z))
       then c ((advance ?n z)\<lparr>captures := (captures z)(2 \<mapsto> takeWhile isDigit (remaining z))\<rparr>)
       else None)"
  proof -
    assume a: "1 \<le> ?n"
    from a have pos: "0 < ?n" by linarith
    obtain ch' r' where t: "rev (take ?n (remaining z)) = ch' # r'" "isDigit ch'"
      using rev_take_in_run[OF pos order_refl] by blast
    have nw: "nextIsWord (rev (takeWhile isDigit (remaining z)) @ consumed z)"
      using t by (simp add: take_run nextIsWord_def digit_word)
    show ?thesis
      by (simp add: WordBoundary_alt advance_run nw take_run)
  qed
  show ?thesis
    unfolding Seq_def Group_def rm using fin by (auto simp: withinMax_def)
qed

lemma stage_star:
  assumes "\<And>y ch r. remaining y = ch # r \<Longrightarrow> p ch \<Longrightarrow> m y c = None"
  shows "Seq (RepeatMatcher p 0 None) m z c =
           m (advance (length (takeWhile p (remaining z))) z) c"
proof -
  have short: "\<And>k. k < length (takeWhile p (remaining z)) \<Longrightarrow> m (advance k z) c = None"
  proof -
    fix k assume "k < length (takeWhile p (remaining z))"
    then obtain ch r where "drop k (remaining z) = ch # r" "p ch"
      using drop_in_run by blast
    then show "m (advance k z) c = None"
      by (intro assms[of _ ch r]) (simp_all add: advance_def)
  qed
  have "RepeatMatcher p 0 None z (\<lambda>y. m y c) =
     (if 0 \<le> length (takeWhile p (remaining z)) \<and> withinMax (length (takeWhile p (remaining z))) None
      then m (advance (length (takeWhile p (remaining z))) z) c else None)"
    by (rule RepeatMatcher_greedy) (simp_all add: withinMax_def short)
  then show ?thesis by (simp add: Seq_def withinMax_def)
qed

lemma stage_colon:
  "Seq (CharacterMatcher colon) m z c =
     (case remaining z of
        [] \<Rightarrow> None
      | ch # r \<Rightarrow> if ch = colon then m (z\<lparr>consumed := ch # consumed z, remaining := r\<rparr>) c else None)"
  by (simp add: Seq_def CharacterMatcher_def split: list.splits)

lemma stage_group1:
  assumes "\<And>y ch r. remaining y = ch # r \<Longrightarrow> isDigit ch \<Longrightarrow> m y c = None"
  shows "Seq (Group 1 (RepeatMatcher isDigit 1 (Some 4))) m z c =
     (if 1 \<le> length (takeWhile isDigit (remaining z)) \<and> length (takeWhile isDigit (remaining z)) \<le> 4
      then m ((advance (length (takeWhile isDigit (remaining z))) z)
                \<lparr>captures := (captures z)(1 \<mapsto> takeWhile isDigit (remaining z))\<rparr>) c
      else None)"
proof -
  let ?k = "\<lambda>y. m (y\<lparr>captures := (captures y)
                     (1 \<mapsto> take (length (consumed y) - length (consumed z)) (remaining z))\<rparr>) c"
  let ?n = "length (takeWhile isDigit (remaining z))"
  have short: "\<And>k. k < ?n \<Longrightarrow> ?k (advance k z) = None"
  proof -
    fix k assume "k < ?n"
    then obtain ch r where "drop k (remaining z) = ch # r" "isDigit ch"
      using drop_in_run by blast
    then show "?k (advance k z) = None"
      by (intro assms[of _ ch r]) (simp_all add: advance_def)
  qed
  have rm: "RepeatMatcher isDigit 1 (Some 4) z ?k =
     (if 1 \<le> ?n \<and> withinMax ?n (Some 4) then ?k (advance ?n z) else None)"
  proof (rule RepeatMatcher_greedy)
    show "withinMax 1 (Some 4)" by (simp add: withinMax_def)
  next
    fix k assume "1 \<le> k" "k < ?n" "withinMax k (Some 4)"
    then show "?k (advance k z) = None" by (intro short)
  qed
  have fin: "?k (advance ?n z) =
      m ((advance ?n z)\<lparr>captures := (captures z)(1 \<mapsto> takeWhile isDigit (remaining z))\<rparr>) c"
    by (simp add: advance_run take_run)
  show ?thesis
    unfolding Seq_def Group_def rm fin by (simp add: withinMax_def)
qed

lemma timecodePattern_stages:
  "timecodePattern = Seq WordBoundary (Seq (Group 1 (RepeatMatcher isDigit 1 (Some 4))) afterGroup1)"
  by (simp add: timecodePattern_def afterGroup1_def afterColon_def)

lemma afterColon_eq:
  "afterColon z c =
     Seq (Group 2 (RepeatMatcher isDigit 1 (Some 4))) WordBoundary
       (advance (length (takeWhile isSpace (remaining z))) z) c"
  unfolding afterColon_def
proof (rule stage_star)
  fix y :: mstate and ch r
  assume "remaining y = ch # r" "isSpace ch"
  then show "Seq (Group 2 (RepeatMatcher isDigit 1 (Some 4))) WordBoundary y c = None"
    unfolding stage_group2 using digit_not_space[of ch] by auto
qed

lemma colonTail_fails_on_space:
  "remaining y = ch # r \<Longrightarrow> ch \<noteq> colon \<Longrightarrow> Seq (CharacterMatcher colon) m y c = None"
  by (simp add: stage_colon)

lemma afterGroup1_eq:
  "afterGroup1 z c =
     Seq (CharacterMatcher colon) afterColon
       (advance (length (takeWhile isSpace (remaining z))) z) c"
  unfolding afterGroup1_def
  by (rule stage_star) (simp add: colonTail_fails_on_space space_not_colon)

lemma afterGroup1_fails_on_digit:
  assumes "remaining y = ch # r" "isDigit ch"
  shows "afterGroup1 y c = None"
proof -
  have "takeWhile isSpace (remaining y) = []"
    using assms digit_not_space by simp
  then show ?thesis
    using assms by (simp add: afterGroup1_eq stage_colon digit_not_colon)
qed

lemma timecodePattern_eq:
  "timecodePattern z c =
     (if nextIsWord (consumed z) \<noteq> nextIsWord (remaining z)
         \<and> 1 \<le> length (takeWhile isDigit (remaining z)) \<and> length (takeWhile isDigit (remaining z)) \<le> 4
      then afterGroup1 ((advance (length (takeWhile isDigit (remaining z))) z)
                \<lparr>captures := (captures z)(1 \<mapsto> takeWhile isDigit (remaining z))\<rparr>) c
      else None)"
proof -
  have g1: "Seq (Group 1 (RepeatMatcher isDigit 1 (Some 4))) afterGroup1 z c =
     (if 1 \<le> length (takeWhile isDigit (remaining z)) \<and> length (takeWhile isDigit (remaining z)) \<le> 4
      then afterGroup1 ((advance (length (takeWhile isDigit (remaining z))) z)
                \<lparr>captures := (captures z)(1 \<mapsto> takeWhile isDigit (remaining z))\<rparr>) c
      else None)"
    by (rule stage_group1) (rule afterGroup1_fails_on_digit)
  have "timecodePattern z c =
          WordBoundary z (\<lambda>y. Seq (Group 1 (RepeatMatcher isDigit 1 (Some 4))) afterGroup1 y c)"
    unfolding timecodePattern_stages by (rule Seq_def)
  also have "\<dots> = (if nextIsWord (consumed z) \<noteq> nextIsWord (remaining z)
                    then Seq (Group 1 (RepeatMatcher isDigit 1 (Some 4))) afterGroup1 z c else None)"
    by (rule WordBoundary_alt)
  finally show ?thesis
    unfolding g1 by simp
qed

lemma run_split:
  assumes "list_all p g" "r = [] \<or> \<not> p (hd r)"
  shows "takeWhile p (g @ r) = g" and "dropWhile p (g @ r) = r"
proof -
  have r: "takeWhile p r = []" "dropWhile p r = r"
    using assms(2) by (cases r; simp)+
  have g: "\<And>x. x \<in> set g \<Longrightarrow> p x" using assms(1) by (simp add: list_all_iff)
  show "takeWhile p (g @ r) = g" using g r by (simp add: takeWhile_append2)
  show "dropWhile p (g @ r) = r" using g r by (simp add: dropWhile_append2)
qed

lemma nextIsWord_rev: "nextIsWord (rev pre) \<longleftrightarrow> pre \<noteq> [] \<and> isWordChar (last pre)"
  by (cases pre rule: rev_cases) (simp_all add: nextIsWord_def)

lemma nextIsWord_hd: "nextIsWord r \<longleftrightarrow> r \<noteq> [] \<and> isWordChar (hd r)"
  by (cases r) (simp_all add: nextIsWord_def)

lemma timecodePattern_match:
  assumes q: "qualifying pre g1 ws1 ws2 g2 post"
  shows "timecodePattern
           \<lparr>consumed = rev pre, remaining = g1 @ ws1 @ [colon] @ ws2 @ g2 @ post, captures = K\<rparr> c
         = c \<lparr>consumed = rev (pre @ g1 @ ws1 @ [colon] @ ws2 @ g2), remaining = post,
               captures = K(1 \<mapsto> g1, 2 \<mapsto> g2)\<rparr>"
proof -
  from q have d1: "list_all isDigit g1" "g1 \<noteq> []" "length g1 \<le> 4"
    and d2: "list_all isDigit g2" "g2 \<noteq> []" "length g2 \<le> 4"
    and s1: "list_all isSpace ws1" and s2: "list_all isSpace ws2"
    and lb: "pre = [] \<or> \<not> isWordChar (last pre)"
    and rb: "post = [] \<or> \<not> isWordChar (hd post)"
    by (simp_all add: qualifying_def digitToken_def)
  let ?R2 = "ws2 @ g2 @ post"
  let ?R1 = "ws1 @ colon # ?R2"
  have hd1: "?R1 = [] \<or> \<not> isDigit (hd ?R1)"
    using s1 digit_not_space digit_not_colon by (cases ws1) auto
  have hd2: "colon # ?R2 = [] \<or> \<not> isSpace (hd (colon # ?R2))"
    using space_not_colon by auto
  have hd3: "g2 @ post = [] \<or> \<not> isSpace (hd (g2 @ post))"
    using d2 digit_not_space by (cases g2) auto
  have hd4: "post = [] \<or> \<not> isDigit (hd post)"
    using rb digit_word by auto
  note r1 = run_split[OF d1(1) hd1]
  note r2 = run_split[OF s1 hd2]
  note r3 = run_split[OF s2 hd3]
  note r4 = run_split[OF d2(1) hd4]
  have w0: "\<not> nextIsWord (rev pre)" using lb by (simp add: nextIsWord_rev)
  have w1: "nextIsWord (g1 @ ?R1)" using d1 digit_word by (cases g1) (auto simp: nextIsWord_def)
  have w2: "\<not> nextIsWord post" using rb by (simp add: nextIsWord_hd)
  have l1: "1 \<le> length g1" "1 \<le> length g2" using d1 d2 by (simp_all add: Suc_le_eq)
  have step1: "timecodePattern
           \<lparr>consumed = rev pre, remaining = g1 @ ?R1, captures = K\<rparr> c
      = afterGroup1 \<lparr>consumed = rev g1 @ rev pre, remaining = ?R1, captures = K(1 \<mapsto> g1)\<rparr> c"
    unfolding timecodePattern_eq using w0 w1 l1 d1(3) by (simp add: r1 advance_def)
  have step2: "afterGroup1 \<lparr>consumed = rev g1 @ rev pre, remaining = ?R1, captures = K(1 \<mapsto> g1)\<rparr> c
      = afterColon \<lparr>consumed = colon # rev ws1 @ rev g1 @ rev pre, remaining = ?R2, captures = K(1 \<mapsto> g1)\<rparr> c"
    unfolding afterGroup1_eq stage_colon by (simp add: r2 advance_def)
  have step3: "afterColon \<lparr>consumed = colon # rev ws1 @ rev g1 @ rev pre, remaining = ?R2, captures = K(1 \<mapsto> g1)\<rparr> c
      = c \<lparr>consumed = rev g2 @ rev ws2 @ colon # rev ws1 @ rev g1 @ rev pre, remaining = post,
               captures = K(1 \<mapsto> g1, 2 \<mapsto> g2)\<rparr>"
    unfolding afterColon_eq stage_group2 using w2 l1 d2(3) by (simp add: r3 r4 advance_def)
  show ?thesis using step1 step2 step3 by simp
qed

lemma timecodePattern_sound:
  assumes ok: "timecodePattern \<lparr>consumed = rev pre, remaining = r, captures = K\<rparr> c \<noteq> None"
  shows "\<exists>g1 ws1 ws2 g2 post.
           r = g1 @ ws1 @ [colon] @ ws2 @ g2 @ post \<and> qualifying pre g1 ws1 ws2 g2 post"
proof -
  define g1 where "g1 = takeWhile isDigit r"
  define r1 where "r1 = dropWhile isDigit r"
  define ws1 where "ws1 = takeWhile isSpace r1"
  define r2 where "r2 = dropWhile isSpace r1"
  have r_eq: "r = g1 @ r1" by (simp add: g1_def r1_def)
  have r1_eq: "r1 = ws1 @ r2" by (simp add: ws1_def r2_def)
  from ok have b0: "nextIsWord (rev pre) \<noteq> nextIsWord r"
    and n1: "1 \<le> length g1" "length g1 \<le> 4"
    and a1: "afterGroup1 \<lparr>consumed = rev g1 @ rev pre, remaining = r1, captures = K(1 \<mapsto> g1)\<rparr> c \<noteq> None"
    unfolding timecodePattern_eq advance_run g1_def r1_def by (simp_all split: if_splits)
  from a1 have a2: "Seq (CharacterMatcher colon) afterColon
      \<lparr>consumed = rev ws1 @ rev g1 @ rev pre, remaining = r2, captures = K(1 \<mapsto> g1)\<rparr> c \<noteq> None"
    unfolding afterGroup1_eq advance_run ws1_def r2_def by simp
  then obtain r3 where r2_eq: "r2 = colon # r3"
    and a3: "afterColon \<lparr>consumed = colon # rev ws1 @ rev g1 @ rev pre, remaining = r3,
               captures = K(1 \<mapsto> g1)\<rparr> c \<noteq> None"
    unfolding stage_colon by (cases r2) (simp_all split: if_splits)
  define ws2 where "ws2 = takeWhile isSpace r3"
  define r4 where "r4 = dropWhile isSpace r3"
  define g2 where "g2 = takeWhile isDigit r4"
  define post where "post = dropWhile isDigit r4"
  have r3_eq: "r3 = ws2 @ r4" by (simp add: ws2_def r4_def)
  have r4_eq: "r4 = g2 @ post" by (simp add: g2_def post_def)
  from a3 have n2: "1 \<le> length g2" "length g2 \<le> 4" and b1: "\<not> nextIsWord post"
    unfolding afterColon_eq stage_group2 advance_run ws2_def r4_def g2_def post_def
    by (simp_all split: if_splits)
  have dg1: "list_all isDigit g1" and dg2: "list_all isDigit g2"
    and sp1: "list_all isSpace ws1" and sp2: "list_all isSpace ws2"
    unfolding g1_def g2_def ws1_def ws2_def list_all_iff by (auto dest: set_takeWhileD)
  have ne1: "g1 \<noteq> []" and ne2: "g2 \<noteq> []" using n1 n2 by auto
  have "nextIsWord r" using ne1 dg1 r_eq digit_word by (cases g1) (auto simp: nextIsWord_def)
  with b0 have lb: "pre = [] \<or> \<not> isWordChar (last pre)" by (auto simp: nextIsWord_rev)
  from b1 have rb: "post = [] \<or> \<not> isWordChar (hd post)" by (auto simp: nextIsWord_hd)
  have "qualifying pre g1 ws1 ws2 g2 post"
    using dg1 dg2 sp1 sp2 ne1 ne2 n1 n2 lb rb by (simp add: qualifying_def digitToken_def)
  moreover have "r = g1 @ ws1 @ [colon] @ ws2 @ g2 @ post"
    using r_eq r1_eq r2_eq r3_eq r4_eq by simp
  ultimately show ?thesis by blast
qed

lemma RegExpExec_None_iff:
  "RegExpExec m seen r = None \<longleftrightarrow>
     (\<forall>a b. r = a @ b \<longrightarrow> m (startState (rev a @ seen) b) Some = None)"
proof (induction r arbitrary: seen)
  case Nil
  then show ?case by (simp split: option.splits)
next
  case (Cons ch rest)
  have split: "\<And>P. (\<forall>a b. ch # rest = a @ b \<longrightarrow> P a b) \<longleftrightarrow>
                  (P [] (ch # rest) \<and> (\<forall>a b. rest = a @ b \<longrightarrow> P (ch # a) b))"
    by (auto simp: Cons_eq_append_conv)
  show ?case
    by (subst split) (simp add: Cons.IH split: option.splits)
qed

lemma RegExpExec_first:
  assumes "m (startState (rev a @ seen) b) Some = Some y"
    and "\<And>a' b'. a @ b = a' @ b' \<Longrightarrow> length a' < length a \<Longrightarrow>
                   m (startState (rev a' @ seen) b') Some = None"
  shows "RegExpExec m seen (a @ b) = Some \<lparr>index = length seen + length a, groups = captures y\<rparr>"
  using assms
proof (induction a arbitrary: seen)
  case Nil
  then show ?case by (cases b) simp_all
next
  case (Cons x a)
  have here: "m (startState seen (x # a @ b)) Some = None"
    using Cons.prems(2)[of "[]" "x # a @ b"] by simp
  have later: "RegExpExec m (x # seen) (a @ b) =
                 Some \<lparr>index = length (x # seen) + length a, groups = captures y\<rparr>"
  proof (rule Cons.IH)
    show "m (startState (rev a @ x # seen) b) Some = Some y"
      using Cons.prems(1) by simp
  next
    fix a' b' assume "a @ b = a' @ b'" "length a' < length a"
    then show "m (startState (rev a' @ x # seen) b') Some = None"
      using Cons.prems(2)[of "x # a'" b'] by simp
  qed
  show ?case using here later by simp
qed

lemma RegExpExec_Some:
  assumes "RegExpExec m seen r = Some ma"
  shows "\<exists>a b y. r = a @ b \<and> m (startState (rev a @ seen) b) Some = Some y \<and>
           ma = \<lparr>index = length seen + length a, groups = captures y\<rparr> \<and>
           (\<forall>a' b'. r = a' @ b' \<and> length a' < length a \<longrightarrow>
                     m (startState (rev a' @ seen) b') Some = None)"
  using assms
proof (induction r arbitrary: seen)
  case Nil
  then show ?case by (auto split: option.splits)
next
  case (Cons ch rest)
  show ?case
  proof (cases "m (startState seen (ch # rest)) Some")
    case (Some y)
    with Cons.prems have "ma = \<lparr>index = length seen, groups = captures y\<rparr>" by simp
    with Some show ?thesis
      by (intro exI[of _ "[]"] exI[of _ "ch # rest"] exI[of _ y]) simp
  next
    case None
    with Cons.prems have "RegExpExec m (ch # seen) rest = Some ma" by simp
    from Cons.IH[OF this] obtain a b y where
      ab: "rest = a @ b" and my: "m (startState (rev a @ ch # seen) b) Some = Some y"
      and ma: "ma = \<lparr>index = length (ch # seen) + length a, groups = captures y\<rparr>"
      and first: "\<forall>a' b'. rest = a' @ b' \<and> length a' < length a \<longrightarrow>
                     m (startState (rev a' @ ch # seen) b') Some = None"
      by blast
    have "\<forall>a' b'. ch # rest = a' @ b' \<and> length a' < length (ch # a) \<longrightarrow>
                     m (startState (rev a' @ seen) b') Some = None"
    proof (intro allI impI)
      fix a' b' assume h: "ch # rest = a' @ b' \<and> length a' < length (ch # a)"
      show "m (startState (rev a' @ seen) b') Some = None"
      proof (cases a')
        case Nil
        with h None show ?thesis by simp
      next
        case (Cons x a'')
        with h first show ?thesis by simp
      qed
    qed
    with ab my ma show ?thesis
      by (intro exI[of _ "ch # a"] exI[of _ b] exI[of _ y]) simp
  qed
qed

section \<open>The match and the first qualifying pattern\<close>

lemma match_of_first:
  assumes "firstQualifying t pre g1 ws1 ws2 g2 post"
  shows "match_js timecodePattern t =
           Some \<lparr>index = length pre, groups = (\<lambda>_. None)(1 \<mapsto> g1, 2 \<mapsto> g2)\<rparr>"
proof -
  let ?b = "g1 @ ws1 @ [colon] @ ws2 @ g2 @ post"
  from assms have t: "t = pre @ ?b" and q: "qualifying pre g1 ws1 ws2 g2 post"
    and first: "\<And>pre' g1' ws1' ws2' g2' post'.
        t = pre' @ g1' @ ws1' @ [colon] @ ws2' @ g2' @ post' \<Longrightarrow>
        qualifying pre' g1' ws1' ws2' g2' post' \<Longrightarrow> length pre \<le> length pre'"
    unfolding firstQualifying_def by blast+
  have here: "timecodePattern (startState (rev pre @ []) ?b) Some =
          Some \<lparr>consumed = rev (pre @ g1 @ ws1 @ [colon] @ ws2 @ g2), remaining = post,
                captures = (\<lambda>_. None)(1 \<mapsto> g1, 2 \<mapsto> g2)\<rparr>"
    using timecodePattern_match[OF q, of "\<lambda>_. None" Some] by simp
  have earlier: "\<And>a' b'. pre @ ?b = a' @ b' \<Longrightarrow> length a' < length pre \<Longrightarrow>
                   timecodePattern (startState (rev a' @ []) b') Some = None"
  proof (rule ccontr)
    fix a' b' assume s: "pre @ ?b = a' @ b'" and l: "length a' < length pre"
      and n: "timecodePattern (startState (rev a' @ []) b') Some \<noteq> None"
    from n obtain g1' ws1' ws2' g2' post' where
      "b' = g1' @ ws1' @ [colon] @ ws2' @ g2' @ post'" "qualifying a' g1' ws1' ws2' g2' post'"
      using timecodePattern_sound[of a' b' "\<lambda>_. None" Some] by auto
    with s t have "length pre \<le> length a'" by (intro first) simp_all
    with l show False by simp
  qed
  have "RegExpExec timecodePattern [] (pre @ ?b) =
          Some \<lparr>index = length ([]::jsstring) + length pre,
                groups = captures \<lparr>consumed = rev (pre @ g1 @ ws1 @ [colon] @ ws2 @ g2),
                  remaining = post, captures = (\<lambda>_. None)(1 \<mapsto> g1, 2 \<mapsto> g2)\<rparr>\<rparr>"
  proof (rule RegExpExec_first)
    show "timecodePattern (startState (rev pre @ []) ?b) Some =
          Some \<lparr>consumed = rev (pre @ g1 @ ws1 @ [colon] @ ws2 @ g2), remaining = post,
                captures = (\<lambda>_. None)(1 \<mapsto> g1, 2 \<mapsto> g2)\<rparr>"
      by (rule here)
  next
    fix a' b' assume "pre @ ?b = a' @ b'" "length a' < length pre"
    then show "timecodePattern (startState (rev a' @ []) b') Some = None"
      by (rule earlier)
  qed
  then show ?thesis
    unfolding match_js_def t by simp
qed

lemma match_None_iff:
  "match_js timecodePattern t = None \<longleftrightarrow>
     (\<forall>pre g1 ws1 ws2 g2 post.
        t = pre @ g1 @ ws1 @ [colon] @ ws2 @ g2 @ post \<longrightarrow> \<not> qualifying pre g1 ws1 ws2 g2 post)"
proof
  assume none: "match_js timecodePattern t = None"
  show "\<forall>pre g1 ws1 ws2 g2 post.
        t = pre @ g1 @ ws1 @ [colon] @ ws2 @ g2 @ post \<longrightarrow> \<not> qualifying pre g1 ws1 ws2 g2 post"
  proof (intro allI impI notI)
    fix pre g1 ws1 ws2 g2 post
    assume t: "t = pre @ g1 @ ws1 @ [colon] @ ws2 @ g2 @ post"
      and q: "qualifying pre g1 ws1 ws2 g2 post"
    from none t have "timecodePattern (startState (rev pre @ []) (g1 @ ws1 @ [colon] @ ws2 @ g2 @ post)) Some = None"
      unfolding match_js_def RegExpExec_None_iff by blast
    then show False using timecodePattern_match[OF q, of "\<lambda>_. None" Some] by simp
  qed
next
  assume no: "\<forall>pre g1 ws1 ws2 g2 post.
        t = pre @ g1 @ ws1 @ [colon] @ ws2 @ g2 @ post \<longrightarrow> \<not> qualifying pre g1 ws1 ws2 g2 post"
  show "match_js timecodePattern t = None"
    unfolding match_js_def RegExpExec_None_iff
  proof (intro allI impI, rule ccontr)
    fix a b assume t: "t = a @ b"
      and n: "timecodePattern (startState (rev a @ []) b) Some \<noteq> None"
    from n obtain g1 ws1 ws2 g2 post where
      "b = g1 @ ws1 @ [colon] @ ws2 @ g2 @ post" "qualifying a g1 ws1 ws2 g2 post"
      using timecodePattern_sound[of a b "\<lambda>_. None" Some] by auto
    with t no show False by blast
  qed
qed

lemma match_Some_first:
  assumes "match_js timecodePattern t = Some ma"
  shows "\<exists>pre g1 ws1 ws2 g2 post.
           firstQualifying t pre g1 ws1 ws2 g2 post \<and>
           ma = \<lparr>index = length pre, groups = (\<lambda>_. None)(1 \<mapsto> g1, 2 \<mapsto> g2)\<rparr>"
proof -
  from assms obtain a b y where t: "t = a @ b"
    and my: "timecodePattern (startState (rev a @ []) b) Some = Some y"
    and ma: "ma = \<lparr>index = length ([]::jsstring) + length a, groups = captures y\<rparr>"
    and first: "\<forall>a' b'. t = a' @ b' \<and> length a' < length a \<longrightarrow>
                     timecodePattern (startState (rev a' @ []) b') Some = None"
    unfolding match_js_def using RegExpExec_Some[of timecodePattern "[]" t ma] by blast
  from my obtain g1 ws1 ws2 g2 post where
    b: "b = g1 @ ws1 @ [colon] @ ws2 @ g2 @ post" and q: "qualifying a g1 ws1 ws2 g2 post"
    using timecodePattern_sound[of a b "\<lambda>_. None" Some] by auto
  have y: "captures y = (\<lambda>_. None)(1 \<mapsto> g1, 2 \<mapsto> g2)"
    using my timecodePattern_match[OF q, of "\<lambda>_. None" Some] b by auto
  have "firstQualifying t a g1 ws1 ws2 g2 post"
    unfolding firstQualifying_def
  proof (intro conjI allI impI)
    show "t = a @ g1 @ ws1 @ [colon] @ ws2 @ g2 @ post" using t b by simp
    show "qualifying a g1 ws1 ws2 g2 post" by (rule q)
  next
    fix pre' g1' ws1' ws2' g2' post'
    assume h: "t = pre' @ g1' @ ws1' @ [colon] @ ws2' @ g2' @ post' \<and> qualifying pre' g1' ws1' ws2' g2' post'"
    show "length a \<le> length pre'"
    proof (rule ccontr)
      assume "\<not> length a \<le> length pre'"
      then have "timecodePattern (startState (rev pre' @ []) (g1' @ ws1' @ [colon] @ ws2' @ g2' @ post')) Some = None"
        using first h by auto
      then show False using timecodePattern_match[of pre' g1' ws1' ws2' g2' post' "\<lambda>_. None" Some] h by simp
    qed
  qed
  moreover have "ma = \<lparr>index = length a, groups = (\<lambda>_. None)(1 \<mapsto> g1, 2 \<mapsto> g2)\<rparr>"
    using ma y by simp
  ultimately show ?thesis by blast
qed

lemma firstQualifyingI:
  assumes "match_js timecodePattern t = Some ma" "index ma = length pre"
    and "t = pre @ g1 @ ws1 @ [colon] @ ws2 @ g2 @ post" "qualifying pre g1 ws1 ws2 g2 post"
  shows "firstQualifying t pre g1 ws1 ws2 g2 post"
proof -
  from match_Some_first[OF assms(1)] obtain pre0 g10 ws10 ws20 g20 post0 where
    f: "firstQualifying t pre0 g10 ws10 ws20 g20 post0" and "index ma = length pre0"
    by auto
  with assms(2) have len: "length pre0 = length pre" by simp
  from f have first0: "\<And>pre' g1' ws1' ws2' g2' post'.
        t = pre' @ g1' @ ws1' @ [colon] @ ws2' @ g2' @ post' \<Longrightarrow>
        qualifying pre' g1' ws1' ws2' g2' post' \<Longrightarrow> length pre0 \<le> length pre'"
    unfolding firstQualifying_def by blast
  show ?thesis
    unfolding firstQualifying_def
  proof (intro conjI allI impI)
    show "t = pre @ g1 @ ws1 @ [colon] @ ws2 @ g2 @ post" by (rule assms(3))
    show "qualifying pre g1 ws1 ws2 g2 post" by (rule assms(4))
  next
    fix pre' g1' ws1' ws2' g2' post'
    assume "t = pre' @ g1' @ ws1' @ [colon] @ ws2' @ g2' @ post' \<and> qualifying pre' g1' ws1' ws2' g2' post'"
    then have "length pre0 \<le> length pre'" using first0 by blast
    then show "length pre \<le> length pre'" using len by simp
  qed
qed

lemma digitValue_range: "isDigit c \<Longrightarrow> 0 \<le> digitValue c \<and> digitValue c \<le> 9"
  by (simp add: isDigit_def digitValue_def word_le_def)

lemma foldl_decimal_nonneg:
  "list_all isDigit s \<Longrightarrow> 0 \<le> acc \<Longrightarrow> 0 \<le> foldl (\<lambda>acc c. 10 * acc + digitValue c) acc s"
proof (induction s arbitrary: acc)
  case Nil
  then show ?case by simp
next
  case (Cons c s)
  then have "0 \<le> 10 * acc + digitValue c" using digitValue_range[of c] by simp
  with Cons show ?case by simp
qed

lemma decimal_nonneg: "list_all isDigit s \<Longrightarrow> 0 \<le> decimal s"
  unfolding decimal_def by (rule foldl_decimal_nonneg) simp_all

lemma Number_js_digits: "list_all isDigit s \<Longrightarrow> Number_js (Some s) = Num (decimal s)"
  by (simp add: Number_js_def)

lemma parse_of_first:
  assumes "firstQualifying t pre g1 ws1 ws2 g2 post"
  shows "parseTimecodes (Some t) =
           (if decimal g1 < decimal g2 then Inr (Some (rangeOf g1 g2))
            else Inl (TimecodeParseError EndNotAfterStart))"
proof -
  from assms have q: "qualifying pre g1 ws1 ws2 g2 post"
    and t: "t = pre @ g1 @ ws1 @ [colon] @ ws2 @ g2 @ post"
    by (simp_all add: firstQualifying_def)
  from q have d: "list_all isDigit g1" "list_all isDigit g2"
    by (simp_all add: qualifying_def digitToken_def)
  have ne: "t \<noteq> []" using t by simp
  have nn: "\<not> decimal g1 < 0" using decimal_nonneg[OF d(1)] by simp
  show ?thesis
    using ne nn
    by (simp add: parseTimecodes_def match_of_first[OF assms] Number_js_digits d isNaN_def
          rangeOf_def not_less)
qed

lemma parse_of_none:
  assumes "\<forall>pre g1 ws1 ws2 g2 post.
        t = pre @ g1 @ ws1 @ [colon] @ ws2 @ g2 @ post \<longrightarrow> \<not> qualifying pre g1 ws1 ws2 g2 post"
  shows "parseTimecodes (Some t) = Inr None"
proof -
  have "match_js timecodePattern t = None"
    unfolding match_None_iff by (rule assms)
  then show ?thesis by (simp add: parseTimecodes_def)
qed

lemma parse_cases:
  "parseTimecodes rawText = Inr None \<and>
     (rawText = None \<or> (\<exists>t. rawText = Some t \<and> match_js timecodePattern t = None))
   \<or> (\<exists>t pre g1 ws1 ws2 g2 post. rawText = Some t \<and> firstQualifying t pre g1 ws1 ws2 g2 post)"
proof (cases rawText)
  case None
  then show ?thesis by (simp add: parseTimecodes_def)
next
  case (Some t)
  show ?thesis
  proof (cases "match_js timecodePattern t")
    case None
    with Some show ?thesis by (simp add: parseTimecodes_def)
  next
    case (Some ma)
    from match_Some_first[OF this] \<open>rawText = Some t\<close> show ?thesis by blast
  qed
qed

section \<open>Examples and consequences for parseTimecodes\<close>

lemmas timecode_eval = parseTimecodes_def str_def match_js_def timecodePattern_def Seq_def
  WordBoundary_def Group_def CharacterMatcher_def RepeatMatcher.simps isDigit_def isWordChar_def
  isSpace_def colon_def Number_js_def decimal_def digitValue_def isNaN_def

lemmas qualifying_eval = qualifying_def digitToken_def str_def isDigit_def isWordChar_def
  isSpace_def colon_def

lemma skip_example_match:
  "match_js timecodePattern (str ''skip to 0:40 please'') =
     Some \<lparr>index = 8, groups = (\<lambda>_. None)(1 \<mapsto> str ''0'', 2 \<mapsto> str ''40'')\<rparr>"
  by (simp add: timecode_eval)

lemma skip_example_first:
  "firstQualifying (str ''skip to 0:40 please'')
     (str ''skip to '') (str ''0'') [] [] (str ''40'') (str '' please'')"
proof (rule firstQualifyingI[OF skip_example_match])
  show "qualifying (str ''skip to '') (str ''0'') [] [] (str ''40'') (str '' please'')"
    by (simp add: qualifying_eval)
qed (simp_all add: str_def colon_def)

lemma reversed_example_match:
  "match_js timecodePattern (str ''40:10 0:40'') =
     Some \<lparr>index = 0, groups = (\<lambda>_. None)(1 \<mapsto> str ''40'', 2 \<mapsto> str ''10'')\<rparr>"
  by (simp add: timecode_eval)

lemma reversed_example_first:
  "firstQualifying (str ''40:10 0:40'') [] (str ''40'') [] [] (str ''10'') (str '' 0:40'')"
proof (rule firstQualifyingI[OF reversed_example_match])
  show "qualifying [] (str ''40'') [] [] (str ''10'') (str '' 0:40'')"
    by (simp add: qualifying_eval)
qed (simp_all add: str_def colon_def)

lemma long_run_example_match: "match_js timecodePattern (str ''12345:30'') = None"
  by (simp add: timecode_eval)

lemma parse_Inr_Some:
  assumes "parseTimecodes rawText = Inr (Some tr)"
  shows "\<exists>t pre g1 ws1 ws2 g2 post. rawText = Some t \<and> firstQualifying t pre g1 ws1 ws2 g2 post \<and>
           decimal g1 < decimal g2 \<and> 0 \<le> decimal g1 \<and> tr = rangeOf g1 g2"
proof -
  from parse_cases[of rawText] assms obtain t pre g1 ws1 ws2 g2 post where
    r: "rawText = Some t" and f: "firstQualifying t pre g1 ws1 ws2 g2 post"
    by auto
  from f have "list_all isDigit g1" by (simp add: firstQualifying_def qualifying_def digitToken_def)
  then have "0 \<le> decimal g1" by (rule decimal_nonneg)
  moreover from assms r parse_of_first[OF f] have "decimal g1 < decimal g2 \<and> tr = rangeOf g1 g2"
    by (auto split: if_splits)
  ultimately show ?thesis using r f by blast
qed

lemma parse_Inl:
  assumes "parseTimecodes rawText = Inl e"
  shows "e = TimecodeParseError EndNotAfterStart \<and>
         (\<exists>t pre g1 ws1 ws2 g2 post. rawText = Some t \<and> firstQualifying t pre g1 ws1 ws2 g2 post \<and>
           decimal g2 \<le> decimal g1)"
proof -
  from parse_cases[of rawText] assms obtain t pre g1 ws1 ws2 g2 post where
    r: "rawText = Some t" and f: "firstQualifying t pre g1 ws1 ws2 g2 post"
    by auto
  from assms r parse_of_first[OF f] have "decimal g2 \<le> decimal g1 \<and> e = TimecodeParseError EndNotAfterStart"
    by (auto split: if_splits)
  then show ?thesis using r f by blast
qed

lemma reversed_plain_match:
  "match_js timecodePattern (str ''40:10'') =
     Some \<lparr>index = 0, groups = (\<lambda>_. None)(1 \<mapsto> str ''40'', 2 \<mapsto> str ''10'')\<rparr>"
  by (simp add: timecode_eval)

lemma reversed_plain_first:
  "firstQualifying (str ''40:10'') [] (str ''40'') [] [] (str ''10'') []"
proof (rule firstQualifyingI[OF reversed_plain_match])
  show "qualifying [] (str ''40'') [] [] (str ''10'') []"
    by (simp add: qualifying_eval)
qed (simp_all add: str_def colon_def)


lemma two_patterns_match:
  "match_js timecodePattern (str ''7:3 0:40'') =
     Some \<lparr>index = 0, groups = (\<lambda>_. None)(1 \<mapsto> str ''7'', 2 \<mapsto> str ''3'')\<rparr>"
  by (simp add: timecode_eval)

lemma two_patterns_first:
  "firstQualifying (str ''7:3 0:40'') [] (str ''7'') [] [] (str ''3'') (str '' 0:40'')"
proof (rule firstQualifyingI[OF two_patterns_match])
  show "qualifying [] (str ''7'') [] [] (str ''3'') (str '' 0:40'')"
    by (simp add: qualifying_eval)
qed (simp_all add: str_def colon_def)

lemma alone_first:
  assumes "digitToken g1" "digitToken g2"
  shows "firstQualifying (g1 @ [colon] @ g2) [] g1 [] [] g2 []"
  using assms by (simp add: firstQualifying_def qualifying_def)

lemma foldl_decimal_bound:
  "list_all isDigit s \<Longrightarrow> 0 \<le> acc \<Longrightarrow>
   foldl (\<lambda>acc c. 10 * acc + digitValue c) acc s < (acc + 1) * 10 ^ length s"
proof (induction s arbitrary: acc)
  case Nil
  then show ?case by simp
next
  case (Cons c s)
  have d: "0 \<le> digitValue c" "digitValue c \<le> 9" using Cons.prems(1) digitValue_range[of c] by simp_all
  have "foldl (\<lambda>acc c. 10 * acc + digitValue c) (10 * acc + digitValue c) s
          < (10 * acc + digitValue c + 1) * 10 ^ length s"
    using Cons.IH[of "10 * acc + digitValue c"] Cons.prems d by simp
  also have "\<dots> \<le> (10 * acc + 10) * 10 ^ length s"
    using d by (intro mult_right_mono) simp_all
  finally show ?case by (simp add: algebra_simps)
qed

lemma decimal_token_bound: "digitToken g \<Longrightarrow> decimal g \<le> 9999"
proof -
  assume t: "digitToken g"
  then have d: "list_all isDigit g" and l: "length g \<le> 4" by (simp_all add: digitToken_def)
  have "decimal g < 10 ^ length g"
    using foldl_decimal_bound[OF d, of 0] by (simp add: decimal_def)
  also have "(10::int) ^ length g \<le> 10 ^ 4" using l by (intro power_increasing) simp_all
  finally show ?thesis by simp
qed

lemma parse_range:
  assumes "parseTimecodes rawText = Inr (Some tr)"
  shows "\<exists>s e. tr = \<lparr>trim_start = NumberVal (Num s), trim_end = NumberVal (Num e)\<rparr>
           \<and> 0 \<le> s \<and> s < e \<and> e \<le> 9999"
proof -
  from parse_Inr_Some[OF assms] obtain t pre g1 ws1 ws2 g2 post where
    f: "firstQualifying t pre g1 ws1 ws2 g2 post" and lt: "decimal g1 < decimal g2"
    and nn: "0 \<le> decimal g1" and tr: "tr = rangeOf g1 g2"
    by (elim exE conjE)
  from f have "digitToken g2" by (simp add: firstQualifying_def qualifying_def)
  then have "decimal g2 \<le> 9999" by (rule decimal_token_bound)
  with lt nn tr show ?thesis by (simp add: rangeOf_def)
qed

lemma worded_example_match: "match_js timecodePattern (str ''v1:30'') = None"
  by (simp add: timecode_eval)

section \<open>The claims about parseTimecodes\<close>

text \<open>
  C1. When the first qualifying pattern of the text (no ASCII letter, digit or
  underscore directly before its first or after its second integer) has
  \<open>0 \<le> start < end\<close>, \<open>parseTimecodes\<close> returns the record of exactly
  these two integers; \<open>skip to 0:40 please\<close> gives \<open>{start: 0, end: 40}\<close>; and every
  record that \<open>parseTimecodes\<close> returns has \<open>0 \<le> start < end\<close>.
\<close>

theorem C1_parse_returns_first_pattern:
  "(firstQualifying t pre g1 ws1 ws2 g2 post \<and> 0 \<le> decimal g1 \<and> decimal g1 < decimal g2 \<longrightarrow>
      parseTimecodes (Some t) =
        Inr (Some \<lparr>trim_start = NumberVal (Num (decimal g1)), trim_end = NumberVal (Num (decimal g2))\<rparr>))
   \<and> parseTimecodes (Some (str ''skip to 0:40 please'')) =
        Inr (Some \<lparr>trim_start = NumberVal (Num 0), trim_end = NumberVal (Num 40)\<rparr>)
   \<and> (parseTimecodes rawText = Inr (Some tr) \<longrightarrow>
        (\<exists>s e. trim_start tr = NumberVal (Num s) \<and> trim_end tr = NumberVal (Num e) \<and> 0 \<le> s \<and> s < e))"
proof (intro conjI impI)
  assume "firstQualifying t pre g1 ws1 ws2 g2 post \<and> 0 \<le> decimal g1 \<and> decimal g1 < decimal g2"
  then show "parseTimecodes (Some t) =
        Inr (Some \<lparr>trim_start = NumberVal (Num (decimal g1)), trim_end = NumberVal (Num (decimal g2))\<rparr>)"
    using parse_of_first[of t pre g1 ws1 ws2 g2 post] by (simp add: rangeOf_def)
next
  show "parseTimecodes (Some (str ''skip to 0:40 please'')) =
        Inr (Some \<lparr>trim_start = NumberVal (Num 0), trim_end = NumberVal (Num 40)\<rparr>)"
    using parse_of_first[OF skip_example_first]
    by (simp add: rangeOf_def decimal_def digitValue_def str_def)
next
  assume "parseTimecodes rawText = Inr (Some tr)"
  from parse_Inr_Some[OF this] show
    "\<exists>s e. trim_start tr = NumberVal (Num s) \<and> trim_end tr = NumberVal (Num e) \<and> 0 \<le> s \<and> s < e"
    by (auto simp: rangeOf_def)
qed

text \<open>
  The theorem at \<open>skip to 0:40 please\<close>, whose first qualifying pattern is \<open>0:40\<close> at
  index 8.
\<close>

theorem C1_parse_returns_first_pattern_witness:
  "firstQualifying (str ''skip to 0:40 please'') (str ''skip to '') (str ''0'') [] [] (str ''40'') (str '' please'')
   \<and> 0 \<le> decimal (str ''0'') \<and> decimal (str ''0'') < decimal (str ''40'')
   \<and> parseTimecodes (Some (str ''skip to 0:40 please'')) =
        Inr (Some \<lparr>trim_start = NumberVal (Num (decimal (str ''0''))),
                   trim_end = NumberVal (Num (decimal (str ''40'')))\<rparr>)
   \<and> (\<exists>s e. trim_start \<lparr>trim_start = NumberVal (Num 0), trim_end = NumberVal (Num 40)\<rparr> = NumberVal (Num s)
          \<and> trim_end \<lparr>trim_start = NumberVal (Num 0), trim_end = NumberVal (Num 40)\<rparr> = NumberVal (Num e)
          \<and> 0 \<le> s \<and> s < e)"
proof -
  have d: "0 \<le> decimal (str ''0'')" "decimal (str ''0'') < decimal (str ''40'')"
    by (simp_all add: decimal_def digitValue_def str_def)
  note inst = C1_parse_returns_first_pattern
    [of "str ''skip to 0:40 please''" "str ''skip to ''" "str ''0''" "[]" "[]" "str ''40''" "str '' please''"
        "Some (str ''skip to 0:40 please'')"
        "\<lparr>trim_start = NumberVal (Num 0), trim_end = NumberVal (Num 40)\<rparr>"]
  show ?thesis using inst skip_example_first d by blast
qed

text \<open>
  C1 as it is worded does not hold, in two ways. The text \<open>40:10 0:40\<close> contains the
  pattern \<open>0:40\<close> with \<open>0 \<le> 0 < 40\<close>, and \<open>parseTimecodes\<close> raises TimecodeParseError,
  because the first pattern \<open>40:10\<close> is the one that is used. The text \<open>v1:30\<close> contains
  the pattern \<open>1:30\<close>, which is not part of a longer run of digits, and \<open>parseTimecodes\<close>
  returns \<open>null\<close>, because the letter before the \<open>1\<close> leaves no word boundary there.
\<close>

theorem C1_as_worded_counterexample:
  "str ''40:10 0:40'' = str ''40:10 '' @ str ''0'' @ [] @ [colon] @ [] @ str ''40'' @ []
   \<and> qualifying (str ''40:10 '') (str ''0'') [] [] (str ''40'') []
   \<and> wordedQualifying (str ''40:10 '') (str ''0'') [] [] (str ''40'') []
   \<and> 0 \<le> decimal (str ''0'') \<and> decimal (str ''0'') < decimal (str ''40'')
   \<and> parseTimecodes (Some (str ''40:10 0:40'')) = Inl (TimecodeParseError EndNotAfterStart)
   \<and> str ''v1:30'' = str ''v'' @ str ''1'' @ [] @ [colon] @ [] @ str ''30'' @ []
   \<and> wordedQualifying (str ''v'') (str ''1'') [] [] (str ''30'') []
   \<and> 0 \<le> decimal (str ''1'') \<and> decimal (str ''1'') < decimal (str ''30'')
   \<and> parseTimecodes (Some (str ''v1:30'')) = Inr None"
proof -
  have a: "parseTimecodes (Some (str ''40:10 0:40'')) = Inl (TimecodeParseError EndNotAfterStart)"
    using parse_of_first[OF reversed_example_first] by (simp add: decimal_def digitValue_def str_def)
  have b: "qualifying (str ''40:10 '') (str ''0'') [] [] (str ''40'') []"
    by (simp add: qualifying_eval)
  have c: "wordedQualifying (str ''40:10 '') (str ''0'') [] [] (str ''40'') []"
    "wordedQualifying (str ''v'') (str ''1'') [] [] (str ''30'') []"
    by (simp_all add: wordedQualifying_def digitToken_def str_def isDigit_def)
  have d: "parseTimecodes (Some (str ''v1:30'')) = Inr None"
    using worded_example_match by (simp add: parseTimecodes_def str_def)
  show ?thesis using a b c d by (simp add: str_def colon_def decimal_def digitValue_def)
qed

text \<open>
  C2. When the matched pattern, the first qualifying one, has \<open>end \<le> start\<close>,
  \<open>parseTimecodes\<close> raises TimecodeParseError and returns nothing; whenever it raises,
  the error is this one and the text has a matched pattern with \<open>end \<le> start\<close>;
  \<open>40:10\<close> and \<open>5:5\<close> both raise.
\<close>

theorem C2_end_not_after_start_fails:
  "(firstQualifying t pre g1 ws1 ws2 g2 post \<and> decimal g2 \<le> decimal g1 \<longrightarrow>
      parseTimecodes (Some t) = Inl (TimecodeParseError EndNotAfterStart))
   \<and> (parseTimecodes rawText = Inl e \<longrightarrow>
        e = TimecodeParseError EndNotAfterStart \<and>
        (\<exists>t' pre' g1' ws1' ws2' g2' post'.
           rawText = Some t' \<and> firstQualifying t' pre' g1' ws1' ws2' g2' post' \<and> decimal g2' \<le> decimal g1'))
   \<and> parseTimecodes (Some (str ''40:10'')) = Inl (TimecodeParseError EndNotAfterStart)
   \<and> parseTimecodes (Some (str ''5:5'')) = Inl (TimecodeParseError EndNotAfterStart)"
proof (intro conjI impI)
  assume "firstQualifying t pre g1 ws1 ws2 g2 post \<and> decimal g2 \<le> decimal g1"
  then show "parseTimecodes (Some t) = Inl (TimecodeParseError EndNotAfterStart)"
    using parse_of_first[of t pre g1 ws1 ws2 g2 post] by simp
next
  assume "parseTimecodes rawText = Inl e"
  from parse_Inl[OF this] show "e = TimecodeParseError EndNotAfterStart" by simp
next
  assume "parseTimecodes rawText = Inl e"
  from parse_Inl[OF this] show "\<exists>t' pre' g1' ws1' ws2' g2' post'.
           rawText = Some t' \<and> firstQualifying t' pre' g1' ws1' ws2' g2' post' \<and> decimal g2' \<le> decimal g1'"
    by simp
next
  show "parseTimecodes (Some (str ''40:10'')) = Inl (TimecodeParseError EndNotAfterStart)"
    by (simp add: timecode_eval)
next
  show "parseTimecodes (Some (str ''5:5'')) = Inl (TimecodeParseError EndNotAfterStart)"
    by (simp add: timecode_eval)
qed

text \<open>The theorem at \<open>40:10\<close>.\<close>

theorem C2_end_not_after_start_fails_witness:
  "firstQualifying (str ''40:10'') [] (str ''40'') [] [] (str ''10'') []
   \<and> decimal (str ''10'') \<le> decimal (str ''40'')
   \<and> parseTimecodes (Some (str ''40:10'')) = Inl (TimecodeParseError EndNotAfterStart)"
proof -
  have d: "decimal (str ''10'') \<le> decimal (str ''40'')"
    by (simp add: decimal_def digitValue_def str_def)
  note inst = C2_end_not_after_start_fails
    [of "str ''40:10''" "[]" "str ''40''" "[]" "[]" "str ''10''" "[]"]
  show ?thesis using inst reversed_plain_first d by blast
qed


text \<open>
  C3. For absent text, for the empty string, and for every text that contains no
  qualifying pattern (no colon-separated pair of 1 to 4 digit integers standing alone),
  \<open>parseTimecodes\<close> returns \<open>null\<close> and raises nothing.
\<close>

theorem C3_no_pattern_returns_null:
  "parseTimecodes None = Inr None
   \<and> parseTimecodes (Some []) = Inr None
   \<and> (noQualifying t \<longrightarrow> parseTimecodes (Some t) = Inr None)"
proof (intro conjI impI)
  show "parseTimecodes None = Inr None" by (simp add: parseTimecodes_def)
  show "parseTimecodes (Some []) = Inr None" by (simp add: parseTimecodes_def)
next
  assume "noQualifying t"
  then show "parseTimecodes (Some t) = Inr None"
    unfolding noQualifying_def by (rule parse_of_none)
qed

text \<open>
  The theorem at \<open>12345:30\<close>, where the digits before the colon are part of a run of
  five.
\<close>

theorem C3_no_pattern_returns_null_witness:
  "noQualifying (str ''12345:30'') \<and> parseTimecodes (Some (str ''12345:30'')) = Inr None"
proof -
  have none: "noQualifying (str ''12345:30'')"
    unfolding noQualifying_def using long_run_example_match unfolding match_None_iff .
  note inst = C3_no_pattern_returns_null[of "str ''12345:30''"]
  show ?thesis using inst none by blast
qed

text \<open>
  C8. The result of \<open>parseTimecodes\<close>, value or error, is the result for the first
  qualifying pattern taken alone: whatever follows it, later colon pairs included, is
  never used.
\<close>

theorem C8_only_first_pattern_used:
  "firstQualifying t pre g1 ws1 ws2 g2 post \<Longrightarrow>
     parseTimecodes (Some t) = parseTimecodes (Some (g1 @ [colon] @ g2))"
proof -
  assume f: "firstQualifying t pre g1 ws1 ws2 g2 post"
  then have "digitToken g1" "digitToken g2"
    by (simp_all add: firstQualifying_def qualifying_def)
  then have "firstQualifying (g1 @ [colon] @ g2) [] g1 [] [] g2 []" by (rule alone_first)
  from parse_of_first[OF this] parse_of_first[OF f] show ?thesis by simp
qed

text \<open>
  The theorem at \<open>7:3 0:40\<close>, which has two qualifying patterns: the result is the
  error of \<open>7:3\<close>, although \<open>0:40\<close> alone would be accepted.
\<close>

theorem C8_only_first_pattern_used_witness:
  "firstQualifying (str ''7:3 0:40'') [] (str ''7'') [] [] (str ''3'') (str '' 0:40'')
   \<and> qualifying (str ''7:3 '') (str ''0'') [] [] (str ''40'') []
   \<and> parseTimecodes (Some (str ''7:3 0:40'')) = parseTimecodes (Some (str ''7'' @ [colon] @ str ''3''))
   \<and> parseTimecodes (Some (str ''7:3 0:40'')) = Inl (TimecodeParseError EndNotAfterStart)"
proof -
  have q: "qualifying (str ''7:3 '') (str ''0'') [] [] (str ''40'') []"
    by (simp add: qualifying_eval)
  have e: "parseTimecodes (Some (str ''7'' @ [colon] @ str ''3'')) = Inl (TimecodeParseError EndNotAfterStart)"
    by (simp add: timecode_eval)
  show ?thesis
    using C8_only_first_pattern_used[OF two_patterns_first] two_patterns_first q e by simp
qed

text \<open>
  C9. Whenever the regular expression matches, both captures are strings of 1 to 4
  decimal digits, \<open>Number\<close> of neither is \<open>NaN\<close>, and \<open>start < 0\<close> is false; so
  \<open>parseTimecodes\<close> never raises the error of the \<open>NaN\<close> branch.
\<close>

theorem C9_captures_are_digit_strings:
  "(match_js timecodePattern t = Some ma \<longrightarrow>
      (\<exists>g1 g2. groups ma 1 = Some g1 \<and> groups ma 2 = Some g2 \<and> digitToken g1 \<and> digitToken g2)
      \<and> \<not> isNaN (Number_js (groups ma 1)) \<and> \<not> isNaN (Number_js (groups ma 2))
      \<and> \<not> js_lt (Number_js (groups ma 1)) (Num 0))
   \<and> parseTimecodes rawText \<noteq> Inl (TimecodeParseError NotNumbers)"
proof (intro conjI impI)
  assume m: "match_js timecodePattern t = Some ma"
  from match_Some_first[OF m] obtain pre g1 ws1 ws2 g2 post where
    f: "firstQualifying t pre g1 ws1 ws2 g2 post"
    and ma: "ma = \<lparr>index = length pre, groups = (\<lambda>_. None)(1 \<mapsto> g1, 2 \<mapsto> g2)\<rparr>"
    by blast
  from f have d: "digitToken g1" "digitToken g2"
    by (simp_all add: firstQualifying_def qualifying_def)
  then have dd: "list_all isDigit g1" "list_all isDigit g2" by (simp_all add: digitToken_def)
  show "\<exists>g1 g2. groups ma 1 = Some g1 \<and> groups ma 2 = Some g2 \<and> digitToken g1 \<and> digitToken g2"
    using ma d by simp
  show "\<not> isNaN (Number_js (groups ma 1))"
    using ma dd by (simp add: Number_js_digits isNaN_def)
  show "\<not> isNaN (Number_js (groups ma 2))"
    using ma dd by (simp add: Number_js_digits isNaN_def)
  show "\<not> js_lt (Number_js (groups ma 1)) (Num 0)"
    using ma dd decimal_nonneg[OF dd(1)] by (simp add: Number_js_digits not_less)
next
  show "parseTimecodes rawText \<noteq> Inl (TimecodeParseError NotNumbers)"
    using parse_Inl[of rawText "TimecodeParseError NotNumbers"] by auto
qed

text \<open>The theorem at \<open>skip to 0:40 please\<close>.\<close>

theorem C9_captures_are_digit_strings_witness:
  "match_js timecodePattern (str ''skip to 0:40 please'') =
     Some \<lparr>index = 8, groups = (\<lambda>_. None)(1 \<mapsto> str ''0'', 2 \<mapsto> str ''40'')\<rparr>
   \<and> digitToken (str ''0'') \<and> digitToken (str ''40'')
   \<and> \<not> isNaN (Number_js (Some (str ''0''))) \<and> \<not> isNaN (Number_js (Some (str ''40'')))
   \<and> \<not> js_lt (Number_js (Some (str ''0''))) (Num 0)"
proof -
  note inst = C9_captures_are_digit_strings
    [of "str ''skip to 0:40 please''"
        "\<lparr>index = 8, groups = (\<lambda>_. None)(1 \<mapsto> str ''0'', 2 \<mapsto> str ''40'')\<rparr>"]
  show ?thesis using inst skip_example_match by simp
qed


section \<open>The extension pattern of isAudioDocument\<close>

lemma unat_sub_0x20: "97 \<le> unat (c :: code_unit) \<Longrightarrow> unat (c - 0x20) = unat c - 32"
proof -
  assume a: "97 \<le> unat c"
  have "(0x20 :: code_unit) \<le> c" using a by (simp add: word_le_nat_alt)
  then have "unat (c - 0x20) = unat c - unat (0x20 :: code_unit)" by (rule unat_sub)
  then show ?thesis by simp
qed

lemma unat_add_0x20: "unat (c :: code_unit) \<le> 90 \<Longrightarrow> unat (c + 0x20) = unat c + 32"
proof -
  assume a: "unat c \<le> 90"
  have "unat c + unat (0x20 :: code_unit) < 2 ^ LENGTH(16)" using a by simp
  then have "unat (c + 0x20) = unat c + unat (0x20 :: code_unit)" by (simp only: unat_add_lem)
  then show ?thesis by simp
qed

lemma canon_lower:
  "\<not> (0x41 \<le> p \<and> p \<le> 0x5A) \<Longrightarrow> (Canonicalize c = Canonicalize p) = (toLowerASCII c = p)"
  unfolding Canonicalize_def toLowerASCII_def word_le_nat_alt word_unat_eq_iff
  by (simp add: unat_sub_0x20 unat_add_0x20) arith


lemma canon_lower_list:
  "list_all (\<lambda>p. \<not> (0x41 \<le> p \<and> p \<le> 0x5A)) ext \<Longrightarrow>
   (map Canonicalize b = map Canonicalize ext) = (map toLowerASCII b = ext)"
proof (induction ext arbitrary: b)
  case Nil
  then show ?case by simp
next
  case (Cons p ext)
  show ?case
  proof (cases b)
    case Nil
    then show ?thesis by simp
  next
    case (Cons c b')
    with Cons.prems Cons.IH[of b'] canon_lower[of p c] show ?thesis by simp
  qed
qed

lemma Literal_eq:
  "Literal s x c =
     (if length s \<le> length (remaining x)
         \<and> map Canonicalize (take (length s) (remaining x)) = map Canonicalize s
      then c (advance (length s) x) else None)"
proof (induction s arbitrary: x)
  case Nil
  then show ?case by simp
next
  case (Cons p s)
  show ?case
  proof (cases "remaining x")
    case Nil
    then show ?thesis by (simp add: CharacterMatcherI_def)
  next
    case (Cons ch rest)
    then show ?thesis
      using Cons.IH[of "x\<lparr>consumed := ch # consumed x, remaining := rest\<rparr>"]
      by (simp add: CharacterMatcherI_def advance_def)
  qed
qed

text \<open>A literal followed by the end of input, as the continuation of the group makes it.\<close>

lemma Literal_to_end:
  "(Literal s x (\<lambda>z. AssertEnd (f z) Some) \<noteq> None) =
     (remaining (f (advance (length s) x)) = [] \<and> length s \<le> length (remaining x)
      \<and> map Canonicalize (take (length s) (remaining x)) = map Canonicalize s)"
  by (auto simp: Literal_eq AssertEnd_def)

lemma Alt_not_None: "(Alt m1 m2 x c \<noteq> None) = (m1 x c \<noteq> None \<or> m2 x c \<noteq> None)"
  by (simp add: Alt_def split: option.splits)


lemma Literal_then_end:
  "(Literal s y (\<lambda>z. AssertEnd (z\<lparr>captures := g z\<rparr>) Some) \<noteq> None) =
     (map Canonicalize (remaining y) = map Canonicalize s)"
proof -
  have "(Literal s y (\<lambda>z. AssertEnd (z\<lparr>captures := g z\<rparr>) Some) \<noteq> None) =
     (drop (length s) (remaining y) = [] \<and> length s \<le> length (remaining y)
      \<and> map Canonicalize (take (length s) (remaining y)) = map Canonicalize s)"
    using Literal_to_end[of s y "\<lambda>z. z\<lparr>captures := g z\<rparr>"] by (simp add: advance_def)
  also have "\<dots> = (map Canonicalize (remaining y) = map Canonicalize s)"
  proof
    assume "drop (length s) (remaining y) = [] \<and> length s \<le> length (remaining y)
      \<and> map Canonicalize (take (length s) (remaining y)) = map Canonicalize s"
    then have "length (remaining y) = length s"
      and "map Canonicalize (take (length s) (remaining y)) = map Canonicalize s" by auto
    then show "map Canonicalize (remaining y) = map Canonicalize s" by simp
  next
    assume a: "map Canonicalize (remaining y) = map Canonicalize s"
    then have "length (remaining y) = length s" by (rule map_eq_imp_length_eq)
    with a show "drop (length s) (remaining y) = [] \<and> length s \<le> length (remaining y)
      \<and> map Canonicalize (take (length s) (remaining y)) = map Canonicalize s" by simp
  qed
  finally show ?thesis .
qed

lemma audioExtensionPattern_at:
  "(audioExtensionPattern (startState seen b) Some \<noteq> None) =
     list_ex (\<lambda>ext. map Canonicalize b = map Canonicalize ext) audioExtensions"
proof (cases b)
  case Nil
  then show ?thesis
    by (simp add: audioExtensionPattern_def Seq_def CharacterMatcherI_def audioExtensions_def str_def)
next
  case (Cons ch rest)
  have tails: "str ''.mp3'' = dot # str ''mp3''" "str ''.wav'' = dot # str ''wav''"
    "str ''.m4a'' = dot # str ''m4a''" "str ''.flac'' = dot # str ''flac''"
    "str ''.aac'' = dot # str ''aac''" "str ''.ogg'' = dot # str ''ogg''"
    "str ''.oga'' = dot # str ''oga''"
    by (simp_all add: str_def dot_def)
  show ?thesis
    unfolding audioExtensionPattern_def Seq_def Group_def Cons
    by (simp add: CharacterMatcherI_def Alt_not_None Literal_then_end audioExtensions_def tails
          del: Literal.simps not_None_eq)
qed

lemma endsWith_map_iff:
  "endsWith (map f n) ext = (\<exists>a b. n = a @ b \<and> map f b = ext)"
proof
  assume e: "endsWith (map f n) ext"
  let ?k = "length n - length ext"
  have "n = take ?k n @ drop ?k n" by simp
  moreover have "map f (drop ?k n) = ext" using e by (simp add: endsWith_def drop_map)
  ultimately show "\<exists>a b. n = a @ b \<and> map f b = ext" by blast
next
  assume "\<exists>a b. n = a @ b \<and> map f b = ext"
  then obtain a b where "n = a @ b" "map f b = ext" by blast
  then show "endsWith (map f n) ext" by (auto simp: endsWith_def)
qed


lemma extensions_lower:
  "ext \<in> set audioExtensions \<Longrightarrow> list_all (\<lambda>p. \<not> (0x41 \<le> p \<and> p \<le> 0x5A)) ext"
  by (auto simp: audioExtensions_def str_def)



lemma extension_match_iff:
  "(match_js audioExtensionPattern n \<noteq> None) =
     list_ex (endsWith (map toLowerASCII n)) audioExtensions"
proof
  assume "match_js audioExtensionPattern n \<noteq> None"
  then have "\<not> (\<forall>a b. n = a @ b \<longrightarrow>
               audioExtensionPattern (startState (rev a @ []) b) Some = None)"
    unfolding match_js_def RegExpExec_None_iff .
  then have "\<exists>a b. n = a @ b \<and>
               audioExtensionPattern (startState (rev a @ []) b) Some \<noteq> None"
    by simp
  then obtain a b where n: "n = a @ b"
    and m: "audioExtensionPattern (startState (rev a @ []) b) Some \<noteq> None"
    by (elim exE conjE)
  have "list_ex (\<lambda>ext. map Canonicalize b = map Canonicalize ext) audioExtensions"
    by (rule audioExtensionPattern_at[THEN iffD1, OF m])
  then have "\<exists>ext \<in> set audioExtensions. map Canonicalize b = map Canonicalize ext"
    by (simp only: list_ex_iff)
  then obtain ext where e: "ext \<in> set audioExtensions"
    and c: "map Canonicalize b = map Canonicalize ext"
    by (elim bexE)
  have l: "map toLowerASCII b = ext"
    by (rule canon_lower_list[OF extensions_lower[OF e], THEN iffD1, OF c])
  have "\<exists>a b. n = a @ b \<and> map toLowerASCII b = ext"
    by (rule exI[of _ a], rule exI[of _ b], rule conjI[OF n l])
  then have "endsWith (map toLowerASCII n) ext"
    by (rule endsWith_map_iff[THEN iffD2])
  then have "\<exists>ext \<in> set audioExtensions. endsWith (map toLowerASCII n) ext"
    by (rule bexI[OF _ e])
  then show "list_ex (endsWith (map toLowerASCII n)) audioExtensions"
    by (simp only: list_ex_iff)
next
  assume "list_ex (endsWith (map toLowerASCII n)) audioExtensions"
  then have "\<exists>ext \<in> set audioExtensions. endsWith (map toLowerASCII n) ext"
    by (simp only: list_ex_iff)
  then obtain ext where e: "ext \<in> set audioExtensions"
    and w: "endsWith (map toLowerASCII n) ext"
    by (elim bexE)
  from endsWith_map_iff[THEN iffD1, OF w]
  obtain a b where n: "n = a @ b" and l: "map toLowerASCII b = ext"
    by (elim exE conjE)
  have c: "map Canonicalize b = map Canonicalize ext"
    by (rule canon_lower_list[OF extensions_lower[OF e], THEN iffD2, OF l])
  have "\<exists>ext \<in> set audioExtensions. map Canonicalize b = map Canonicalize ext"
    using c e by (intro bexI[of _ ext])
  then have "list_ex (\<lambda>ext. map Canonicalize b = map Canonicalize ext) audioExtensions"
    by (simp only: list_ex_iff)
  then have m: "audioExtensionPattern (startState (rev a @ []) b) Some \<noteq> None"
    by (rule audioExtensionPattern_at[THEN iffD2])
  have "\<not> (\<forall>a b. n = a @ b \<longrightarrow>
               audioExtensionPattern (startState (rev a @ []) b) Some = None)"
  proof
    assume "\<forall>a b. n = a @ b \<longrightarrow>
               audioExtensionPattern (startState (rev a @ []) b) Some = None"
    then have "n = a @ b \<longrightarrow>
               audioExtensionPattern (startState (rev a @ []) b) Some = None"
      by (elim allE)
    with n m show False by (elim impE notE)
  qed
  then show "match_js audioExtensionPattern n \<noteq> None"
    unfolding match_js_def RegExpExec_None_iff .
qed

lemma startsWith_nonempty: "startsWith mt (str ''audio/'') \<Longrightarrow> mt \<noteq> []"
  by (auto simp: startsWith_def str_def)

lemma endsWith_nonempty: "endsWith s p \<Longrightarrow> p \<noteq> [] \<Longrightarrow> s \<noteq> []"
  by (auto simp: endsWith_def)

lemma extensions_nonempty: "ext \<in> set audioExtensions \<Longrightarrow> ext \<noteq> []"
  by (auto simp: audioExtensions_def str_def)

lemma endsWith_extension_nonempty:
  assumes "list_ex (endsWith (map toLowerASCII n)) audioExtensions"
  shows "n \<noteq> []"
proof -
  from assms have "\<exists>ext \<in> set audioExtensions. endsWith (map toLowerASCII n) ext"
    by (simp only: list_ex_iff)
  then obtain ext where e: "ext \<in> set audioExtensions" and w: "endsWith (map toLowerASCII n) ext"
    by (elim bexE)
  have "map toLowerASCII n \<noteq> []"
    by (rule endsWith_nonempty[OF w extensions_nonempty[OF e]])
  then show ?thesis by simp
qed

lemma isAudioDocument_iff:
  "isAudioDocument doc = (case doc of None \<Rightarrow> False | Some d \<Rightarrow> audioByExtension d)"
proof (cases doc)
  case None
  then show ?thesis by (simp add: isAudioDocument_def)
next
  case (Some d)
  have m: "(case mime_type d of None \<Rightarrow> False
              | Some mt \<Rightarrow> mt \<noteq> [] \<and> startsWith mt (str ''audio/'')) = mimeIsAudio d"
  proof (cases "mime_type d")
    case None
    then show ?thesis by (simp add: mimeIsAudio_def)
  next
    case (Some mt)
    then show ?thesis using startsWith_nonempty[of mt] by (auto simp: mimeIsAudio_def)
  qed
  have f: "(case file_name d of None \<Rightarrow> False
                | Some n \<Rightarrow> n \<noteq> [] \<and> match_js audioExtensionPattern n \<noteq> None) =
           (case file_name d of None \<Rightarrow> False
                | Some n \<Rightarrow> list_ex (endsWith (map toLowerASCII n)) audioExtensions)"
  proof (cases "file_name d")
    case None
    then show ?thesis by simp
  next
    case (Some n)
    have step: "(n \<noteq> [] \<and> list_ex (endsWith (map toLowerASCII n)) audioExtensions) =
            list_ex (endsWith (map toLowerASCII n)) audioExtensions"
    proof
      assume "n \<noteq> [] \<and> list_ex (endsWith (map toLowerASCII n)) audioExtensions"
      then show "list_ex (endsWith (map toLowerASCII n)) audioExtensions" by simp
    next
      assume a: "list_ex (endsWith (map toLowerASCII n)) audioExtensions"
      with endsWith_extension_nonempty[OF a]
      show "n \<noteq> [] \<and> list_ex (endsWith (map toLowerASCII n)) audioExtensions" by simp
    qed
    show ?thesis unfolding Some option.case extension_match_iff by (rule step)
  qed
  have "isAudioDocument (Some d) = audioByExtension d"
    unfolding isAudioDocument_def option.case m f audioByExtension_def by simp
  then show ?thesis using \<open>doc = Some d\<close> by simp
qed


lemma endsWith_last: "endsWith s e \<Longrightarrow> e \<noteq> [] \<Longrightarrow> last s = last e"
proof -
  assume w: "endsWith s e" and ne: "e \<noteq> []"
  from w have l: "length e \<le> length s" and d: "drop (length s - length e) s = e"
    by (simp_all add: endsWith_def)
  from ne l have "length s - length e < length s" by (cases e) simp_all
  then have "last (drop (length s - length e) s) = last s" by (rule last_drop)
  with d show ?thesis by simp
qed

lemma pdf_not_extension:
  "\<not> list_ex (endsWith (map toLowerASCII (base @ str ''.pdf''))) audioExtensions"
proof
  assume "list_ex (endsWith (map toLowerASCII (base @ str ''.pdf''))) audioExtensions"
  then have "\<exists>ext \<in> set audioExtensions. endsWith (map toLowerASCII (base @ str ''.pdf'')) ext"
    by (simp only: list_ex_iff)
  then obtain ext where e: "ext \<in> set audioExtensions"
    and w: "endsWith (map toLowerASCII (base @ str ''.pdf'')) ext"
    by (elim bexE)
  have "last (map toLowerASCII (base @ str ''.pdf'')) = last ext"
    by (rule endsWith_last[OF w extensions_nonempty[OF e]])
  moreover have "last (map toLowerASCII (base @ str ''.pdf'')) = 0x66"
    by (simp add: str_def toLowerASCII_def)
  ultimately have "last ext = 0x66" by simp
  with e show False by (auto simp: audioExtensions_def str_def)
qed

lemmas audio_eval = audioByExtension_def claimedAudio_def mimeIsAudio_def audioExtensions_def
  endsWith_def startsWith_def toLowerASCII_def str_def

lemma shouted_extension_is_audio:
  "isAudioDocument (Some \<lparr>file_id = str ''f1'', file_unique_id = str ''u1'',
      file_name = Some (str ''VOICE.MP3''), mime_type = None\<rparr>)"
  by (simp add: isAudioDocument_iff audio_eval)

section \<open>The claim about isAudioDocument\<close>

text \<open>
  C5. \<open>isAudioDocument\<close> classifies a document as audio if and only if its MIME type
  starts with \<open>audio/\<close> or its file name ends, without regard to the case of ASCII
  letters, with one of \<open>.mp3 .wav .m4a .flac .aac .ogg .oga\<close>; an absent document is not
  audio. A document with MIME type \<open>audio/mpeg\<close> is audio whatever its name; a document
  named \<open>*.pdf\<close> whose MIME type is not audio is not, and the document handler then only
  calls the next handler, if there is one.
\<close>

theorem C5_audio_document_classification:
  "isAudioDocument (Some d) = audioByExtension d
   \<and> \<not> isAudioDocument None
   \<and> (mime_type d1 = Some (str ''audio/mpeg'') \<longrightarrow> isAudioDocument (Some d1))
   \<and> (\<not> mimeIsAudio d2 \<and> file_name d2 = Some (base @ str ''.pdf'') \<and> msg_document message = Some d2 \<longrightarrow>
        \<not> isAudioDocument (Some d2)
        \<and> onDocument w message True = ([Next], Inr ())
        \<and> onDocument w message False = ([], Inr ()))"
proof (intro conjI impI)
  show "isAudioDocument (Some d) = audioByExtension d" by (simp add: isAudioDocument_iff)
  show "\<not> isAudioDocument None" by (simp add: isAudioDocument_iff)
next
  assume "mime_type d1 = Some (str ''audio/mpeg'')"
  then have "mimeIsAudio d1" by (simp add: mimeIsAudio_def startsWith_def str_def)
  then show "isAudioDocument (Some d1)" by (simp add: isAudioDocument_iff audioByExtension_def)
next
  assume a: "\<not> mimeIsAudio d2 \<and> file_name d2 = Some (base @ str ''.pdf'') \<and> msg_document message = Some d2"
  then have n: "\<not> isAudioDocument (Some d2)"
    using pdf_not_extension[of base] by (simp add: isAudioDocument_iff audioByExtension_def)
  show "\<not> isAudioDocument (Some d2)" by (rule n)
  show "onDocument w message True = ([Next], Inr ())" using a n by (simp add: onDocument_def)
  show "onDocument w message False = ([], Inr ())" using a n by (simp add: onDocument_def)
qed

text \<open>
  The theorem at \<open>VOICE.MP3\<close> without a MIME type, at \<open>recording\<close> with MIME type
  \<open>audio/mpeg\<close>, and at \<open>report.pdf\<close> with MIME type \<open>application/pdf\<close>.
\<close>

theorem C5_audio_document_classification_witness:
  "isAudioDocument (Some \<lparr>file_id = str ''f1'', file_unique_id = str ''u1'',
      file_name = Some (str ''VOICE.MP3''), mime_type = None\<rparr>)
   \<and> isAudioDocument (Some \<lparr>file_id = str ''f2'', file_unique_id = str ''u2'',
      file_name = Some (str ''recording''), mime_type = Some (str ''audio/mpeg'')\<rparr>)
   \<and> \<not> isAudioDocument (Some \<lparr>file_id = str ''f3'', file_unique_id = str ''u3'',
      file_name = Some (str ''report'' @ str ''.pdf''), mime_type = Some (str ''application/pdf'')\<rparr>)
   \<and> onDocument sampleWorld
        \<lparr>msg_caption = None, msg_text = None, msg_audio = None,
         msg_document = Some \<lparr>file_id = str ''f3'', file_unique_id = str ''u3'',
           file_name = Some (str ''report'' @ str ''.pdf''), mime_type = Some (str ''application/pdf'')\<rparr>\<rparr>
        True = ([Next], Inr ())"
proof -
  let ?shout = "\<lparr>file_id = str ''f1'', file_unique_id = str ''u1'',
      file_name = Some (str ''VOICE.MP3''), mime_type = None\<rparr>"
  let ?mpeg = "\<lparr>file_id = str ''f2'', file_unique_id = str ''u2'',
      file_name = Some (str ''recording''), mime_type = Some (str ''audio/mpeg'')\<rparr>"
  let ?pdf = "\<lparr>file_id = str ''f3'', file_unique_id = str ''u3'',
      file_name = Some (str ''report'' @ str ''.pdf''), mime_type = Some (str ''application/pdf'')\<rparr>"
  let ?msg = "\<lparr>msg_caption = None, msg_text = None, msg_audio = None, msg_document = Some ?pdf\<rparr>"
  note inst = C5_audio_document_classification[of ?shout ?mpeg ?pdf "str ''report''" ?msg sampleWorld]
  have a: "audioByExtension ?shout" by (simp add: audio_eval)
  have b: "mime_type ?mpeg = Some (str ''audio/mpeg'')" by simp
  have c: "\<not> mimeIsAudio ?pdf \<and> file_name ?pdf = Some (str ''report'' @ str ''.pdf'') \<and> msg_document ?msg = Some ?pdf"
    by (simp add: mimeIsAudio_def startsWith_def str_def)
  show ?thesis using inst a b c by blast
qed

text \<open>
  C5 with the extensions compared as written does not hold: \<open>VOICE.MP3\<close> without a
  MIME type is classified as audio, because the pattern has the ignoreCase flag, though the
  name does not end with \<open>.mp3\<close>.
\<close>

theorem C5_exact_case_counterexample:
  "isAudioDocument (Some \<lparr>file_id = str ''f1'', file_unique_id = str ''u1'',
      file_name = Some (str ''VOICE.MP3''), mime_type = None\<rparr>)
   \<and> \<not> claimedAudio \<lparr>file_id = str ''f1'', file_unique_id = str ''u1'',
      file_name = Some (str ''VOICE.MP3''), mime_type = None\<rparr>"
  using shouted_extension_is_audio by (simp add: audio_eval)


section \<open>The claims about convertToVoice\<close>

text \<open>
  C6. What \<open>convertToVoice\<close> does for every trim range. Without a range, and with a
  range whose \<open>end\<close> is not a number, it runs the voice command (Opus, 48 kbit/s, one
  channel, 48 kHz, no video, format Ogg, the given input and output paths) with no
  duration. With a numeric \<open>end\<close> the duration is \<open>end - start\<close> (\<open>end - 0\<close> when \<open>start\<close>
  is not a number), and when that is \<open>\<le> 0\<close> the promise is rejected and no command is
  built. The start time is \<open>start\<close> whenever \<open>start\<close> is a number. A range that
  \<open>parseTimecodes\<close> returned has \<open>0 \<le> start < end \<le> 9999\<close> and is never rejected.
\<close>

theorem C6_convertToVoice_command:
  "convertToVoice inputPath outputPath None = Inr (voiceCommand inputPath outputPath None None)
   \<and> convertToVoice inputPath outputPath (Some \<lparr>trim_start = NumberVal s, trim_end = NumberVal e\<rparr>) =
       (if js_le (js_sub e s) (Num 0) then Inl (Error InvalidTrimInterval)
        else Inr (voiceCommand inputPath outputPath (Some s) (Some (js_sub e s))))
   \<and> convertToVoice inputPath outputPath (Some \<lparr>trim_start = NumberVal s, trim_end = OtherVal\<rparr>) =
       Inr (voiceCommand inputPath outputPath (Some s) None)
   \<and> convertToVoice inputPath outputPath (Some \<lparr>trim_start = OtherVal, trim_end = NumberVal e\<rparr>) =
       (if js_le (js_sub e (Num 0)) (Num 0) then Inl (Error InvalidTrimInterval)
        else Inr (voiceCommand inputPath outputPath None (Some (js_sub e (Num 0)))))
   \<and> convertToVoice inputPath outputPath (Some \<lparr>trim_start = OtherVal, trim_end = OtherVal\<rparr>) =
       Inr (voiceCommand inputPath outputPath None None)
   \<and> (parseTimecodes rawText = Inr (Some tr) \<longrightarrow>
        (\<exists>a b. tr = \<lparr>trim_start = NumberVal (Num a), trim_end = NumberVal (Num b)\<rparr>
           \<and> 0 \<le> a \<and> a < b \<and> b \<le> 9999
           \<and> convertToVoice inputPath outputPath (Some tr) =
               Inr (voiceCommand inputPath outputPath (Some (Num a)) (Some (Num (b - a))))))"
proof (intro conjI impI)
  note defs = convertToVoice_def Let_def ffmpeg_def setStartTime_def setDuration_def
          outputOptions_def format_def save_def voiceOptions_def voiceCommand_def
  show "convertToVoice inputPath outputPath None = Inr (voiceCommand inputPath outputPath None None)"
    by (simp add: defs)
  show "convertToVoice inputPath outputPath (Some \<lparr>trim_start = NumberVal s, trim_end = NumberVal e\<rparr>) =
       (if js_le (js_sub e s) (Num 0) then Inl (Error InvalidTrimInterval)
        else Inr (voiceCommand inputPath outputPath (Some s) (Some (js_sub e s))))"
    by (simp add: defs)
  show "convertToVoice inputPath outputPath (Some \<lparr>trim_start = NumberVal s, trim_end = OtherVal\<rparr>) =
       Inr (voiceCommand inputPath outputPath (Some s) None)"
    by (simp add: defs)
  show "convertToVoice inputPath outputPath (Some \<lparr>trim_start = OtherVal, trim_end = NumberVal e\<rparr>) =
       (if js_le (js_sub e (Num 0)) (Num 0) then Inl (Error InvalidTrimInterval)
        else Inr (voiceCommand inputPath outputPath None (Some (js_sub e (Num 0)))))"
    by (simp add: defs)
  show "convertToVoice inputPath outputPath (Some \<lparr>trim_start = OtherVal, trim_end = OtherVal\<rparr>) =
       Inr (voiceCommand inputPath outputPath None None)"
    by (simp add: defs)
next
  note defs = convertToVoice_def Let_def ffmpeg_def setStartTime_def setDuration_def
          outputOptions_def format_def save_def voiceOptions_def voiceCommand_def
  assume "parseTimecodes rawText = Inr (Some tr)"
  from parse_range[OF this] obtain a b where
    tr: "tr = \<lparr>trim_start = NumberVal (Num a), trim_end = NumberVal (Num b)\<rparr>"
    and r: "0 \<le> a" "a < b" "b \<le> 9999"
    by (elim exE conjE)
  have "convertToVoice inputPath outputPath (Some tr) =
               Inr (voiceCommand inputPath outputPath (Some (Num a)) (Some (Num (b - a))))"
    using r by (simp add: tr defs)
  with tr r show "\<exists>a b. tr = \<lparr>trim_start = NumberVal (Num a), trim_end = NumberVal (Num b)\<rparr>
           \<and> 0 \<le> a \<and> a < b \<and> b \<le> 9999
           \<and> convertToVoice inputPath outputPath (Some tr) =
               Inr (voiceCommand inputPath outputPath (Some (Num a)) (Some (Num (b - a))))"
    by (intro exI[of _ a] exI[of _ b]) simp
qed

text \<open>
  The theorem at the range \<open>{0, 40}\<close> parsed from \<open>skip to 0:40 please\<close>, at the range
  \<open>{40, 10}\<close>, and without a range.
\<close>

theorem C6_convertToVoice_command_witness:
  "parseTimecodes (Some (str ''skip to 0:40 please'')) =
     Inr (Some \<lparr>trim_start = NumberVal (Num 0), trim_end = NumberVal (Num 40)\<rparr>)
   \<and> convertToVoice (str ''in.mp3'') (str ''out.ogg'')
        (Some \<lparr>trim_start = NumberVal (Num 0), trim_end = NumberVal (Num 40)\<rparr>) =
       Inr \<lparr>cmd_input = str ''in.mp3'', cmd_startTime = Some (Num 0), cmd_duration = Some (Num 40),
            cmd_outputOptions = [''-acodec libopus'', ''-b:a 48k'', ''-ac 1'', ''-ar 48000'', ''-vn''],
            cmd_format = Some ''ogg'', cmd_output = Some (str ''out.ogg'')\<rparr>
   \<and> convertToVoice (str ''in.mp3'') (str ''out.ogg'')
        (Some \<lparr>trim_start = NumberVal (Num 40), trim_end = NumberVal (Num 10)\<rparr>) =
       Inl (Error InvalidTrimInterval)
   \<and> convertToVoice (str ''in.mp3'') (str ''out.ogg'') None =
       Inr \<lparr>cmd_input = str ''in.mp3'', cmd_startTime = None, cmd_duration = None,
            cmd_outputOptions = [''-acodec libopus'', ''-b:a 48k'', ''-ac 1'', ''-ar 48000'', ''-vn''],
            cmd_format = Some ''ogg'', cmd_output = Some (str ''out.ogg'')\<rparr>"
proof -
  have p: "parseTimecodes (Some (str ''skip to 0:40 please'')) =
     Inr (Some \<lparr>trim_start = NumberVal (Num 0), trim_end = NumberVal (Num 40)\<rparr>)"
    using parse_of_first[OF skip_example_first]
    by (simp add: rangeOf_def decimal_def digitValue_def str_def)
  note i1 = C6_convertToVoice_command[of "str ''in.mp3''" "str ''out.ogg''" "Num 0" "Num 40"
      "Some (str ''skip to 0:40 please'')"
      "\<lparr>trim_start = NumberVal (Num 0), trim_end = NumberVal (Num 40)\<rparr>"]
  note i2 = C6_convertToVoice_command[of "str ''in.mp3''" "str ''out.ogg''" "Num 40" "Num 10"
      "Some (str ''skip to 0:40 please'')"
      "\<lparr>trim_start = NumberVal (Num 0), trim_end = NumberVal (Num 40)\<rparr>"]
  show ?thesis using p i1 i2 by (simp add: voiceCommand_def)
qed

text \<open>
  C10. With no trim range, \<open>convertToVoice\<close> of src/src/bot.js runs exactly the command
  that \<open>convertToVoice\<close> of src/unnamed/part_000 runs: same input, output options,
  format and output path, and neither start time nor duration.
\<close>

theorem C10_untrimmed_same_command:
  "convertToVoice inputPath outputPath None = Inr (convertToVoice_part000 inputPath outputPath)"
  by (simp add: convertToVoice_def convertToVoice_part000_def Let_def)

section \<open>The claims about processAudio and the handlers\<close>

lemma paths_unlink_irrelevant:
  "buildTempPath (w\<lparr>unlinkInputOk := a, unlinkOutputOk := b\<rparr>) n ext = buildTempPath w n ext"
  "tmpRoot (w\<lparr>unlinkInputOk := a, unlinkOutputOk := b\<rparr>) = tmpRoot w"
  by (simp_all add: buildTempPath_def tmpRoot_def)

lemma cleanup_run:
  "allSettled [unlinkQuietly p a, unlinkQuietly q b] = ([Unlink p, Unlink q], Inr ())"
  by (simp add: allSettled_def unlinkQuietly_def)


lemma processAudio_unlink_irrelevant:
  "processAudio (w\<lparr>unlinkInputOk := a, unlinkOutputOk := b\<rparr>) fileId filenameHint trimRange =
   processAudio w fileId filenameHint trimRange"
  unfolding processAudio_def Let_def cleanup_run paths_unlink_irrelevant
  by (simp cong: option.case_cong sum.case_cong)

lemma reversed_caption_fails:
  "extractTimecodesFromMessage
     \<lparr>msg_caption = Some (str ''40:10''), msg_text = None, msg_audio = a, msg_document = d\<rparr> =
   Inl (TimecodeParseError EndNotAfterStart)"
proof -
  have "parseTimecodes (Some (str ''40:10'')) = Inl (TimecodeParseError EndNotAfterStart)"
    using parse_of_first[OF reversed_plain_first] by (simp add: decimal_def digitValue_def str_def)
  moreover have "js_or (Some (str ''40:10'')) (js_or None []) = str ''40:10''"
    by (simp add: js_or_def str_def)
  ultimately show ?thesis by (simp add: extractTimecodesFromMessage_def)
qed

lemmas run_eval = call_def andThen_def tryFinally_def settled_def cleanup_run

lemma processAudio_run:
  "processAudio w fileId filenameHint trimRange =
     (if \<not> mkdirOk w then ([Mkdir (tmpRoot w)], Inl (Error ExternalFailure))
      else
        (case fileLink w of
           None \<Rightarrow>
             ([Mkdir (tmpRoot w), GetFileLink fileId,
               Unlink (inputPathOf w filenameHint), Unlink (outputPathOf w)],
              Inl (Error ExternalFailure))
         | Some href \<Rightarrow>
             if \<not> downloadOk w then
               ([Mkdir (tmpRoot w), GetFileLink fileId, Download href (inputPathOf w filenameHint),
                 Unlink (inputPathOf w filenameHint), Unlink (outputPathOf w)],
                Inl (Error ExternalFailure))
             else if \<not> chatActionOk w then
               ([Mkdir (tmpRoot w), GetFileLink fileId, Download href (inputPathOf w filenameHint),
                 SendChatAction ''record_voice'',
                 Unlink (inputPathOf w filenameHint), Unlink (outputPathOf w)],
                Inl (Error ExternalFailure))
             else
               (case convertToVoice (inputPathOf w filenameHint) (outputPathOf w) trimRange of
                  Inl e \<Rightarrow>
                    ([Mkdir (tmpRoot w), GetFileLink fileId, Download href (inputPathOf w filenameHint),
                      SendChatAction ''record_voice'',
                      Unlink (inputPathOf w filenameHint), Unlink (outputPathOf w)],
                     Inl e)
                | Inr command \<Rightarrow>
                    if \<not> transcodeOk w then
                      ([Mkdir (tmpRoot w), GetFileLink fileId, Download href (inputPathOf w filenameHint),
                        SendChatAction ''record_voice'', Transcode command,
                        Unlink (inputPathOf w filenameHint), Unlink (outputPathOf w)],
                       Inl (Error ExternalFailure))
                    else
                      ([Mkdir (tmpRoot w), GetFileLink fileId, Download href (inputPathOf w filenameHint),
                        SendChatAction ''record_voice'', Transcode command,
                        ReplyWithVoice (outputPathOf w),
                        Unlink (inputPathOf w filenameHint), Unlink (outputPathOf w)],
                       settled (replyVoiceOk w)))))"
  unfolding processAudio_def Let_def inputPathOf_def[symmetric] outputPathOf_def[symmetric]
  by (simp add: run_eval split: option.splits sum.splits)

lemma convertToVoice_paths:
  "convertToVoice inputPath outputPath trimRange = Inr command \<Longrightarrow>
     cmd_input command = inputPath \<and> cmd_output command = Some outputPath"
  by (auto simp: convertToVoice_def Let_def ffmpeg_def setStartTime_def setDuration_def
          outputOptions_def format_def save_def
          split: option.splits jsval.splits if_splits sum.splits)


lemmas posix_eval = posixJoin_def posixNormalize_def posixExtname_def posixBasename_def
  slash_def dot_def str_def

lemma sample_paths:
  "tmpRoot (sampleWorld\<lparr>downloadOk := ok\<rparr>) = str ''/tmp/audio-tools-bot''"
  "inputPathOf (sampleWorld\<lparr>downloadOk := ok\<rparr>) (str ''voice.mp3'') =
     str ''/tmp/audio-tools-bot/1700000000000-a.mp3''"
  "outputPathOf (sampleWorld\<lparr>downloadOk := ok\<rparr>) = str ''/tmp/audio-tools-bot/1700000000001-b.ogg''"
  by (simp_all add: tmpRoot_def inputPathOf_def outputPathOf_def buildTempPath_def sampleWorld_def
        startsWith_def posix_eval)

text \<open>
  C7. The calls of \<open>processAudio\<close> and how it settles, for every outcome of the
  external calls. Once the temporary directory could be made, every way out (no file link,
  download failed, chat action failed, trim range rejected, transcoder failed, reply
  failed or sent) ends with the deletion of the input file and of the output file, and
  these are the very paths that the download wrote to, the transcoder read from and wrote
  to, and the reply read from. Whether the deletions succeed changes nothing:
  \<open>processAudio\<close> and both handlers make the same calls and settle the same way.
\<close>

theorem C7_cleanup_on_every_exit:
  "processAudio w fileId filenameHint trimRange =
     (if \<not> mkdirOk w then ([Mkdir (tmpRoot w)], Inl (Error ExternalFailure))
      else
        (case fileLink w of
           None \<Rightarrow>
             ([Mkdir (tmpRoot w), GetFileLink fileId,
               Unlink (inputPathOf w filenameHint), Unlink (outputPathOf w)],
              Inl (Error ExternalFailure))
         | Some href \<Rightarrow>
             if \<not> downloadOk w then
               ([Mkdir (tmpRoot w), GetFileLink fileId, Download href (inputPathOf w filenameHint),
                 Unlink (inputPathOf w filenameHint), Unlink (outputPathOf w)],
                Inl (Error ExternalFailure))
             else if \<not> chatActionOk w then
               ([Mkdir (tmpRoot w), GetFileLink fileId, Download href (inputPathOf w filenameHint),
                 SendChatAction ''record_voice'',
                 Unlink (inputPathOf w filenameHint), Unlink (outputPathOf w)],
                Inl (Error ExternalFailure))
             else
               (case convertToVoice (inputPathOf w filenameHint) (outputPathOf w) trimRange of
                  Inl e \<Rightarrow>
                    ([Mkdir (tmpRoot w), GetFileLink fileId, Download href (inputPathOf w filenameHint),
                      SendChatAction ''record_voice'',
                      Unlink (inputPathOf w filenameHint), Unlink (outputPathOf w)],
                     Inl e)
                | Inr command \<Rightarrow>
                    if \<not> transcodeOk w then
                      ([Mkdir (tmpRoot w), GetFileLink fileId, Download href (inputPathOf w filenameHint),
                        SendChatAction ''record_voice'', Transcode command,
                        Unlink (inputPathOf w filenameHint), Unlink (outputPathOf w)],
                       Inl (Error ExternalFailure))
                    else
                      ([Mkdir (tmpRoot w), GetFileLink fileId, Download href (inputPathOf w filenameHint),
                        SendChatAction ''record_voice'', Transcode command,
                        ReplyWithVoice (outputPathOf w),
                        Unlink (inputPathOf w filenameHint), Unlink (outputPathOf w)],
                       settled (replyVoiceOk w)))))
   \<and> (convertToVoice (inputPathOf w filenameHint) (outputPathOf w) trimRange = Inr command \<longrightarrow>
        cmd_input command = inputPathOf w filenameHint \<and> cmd_output command = Some (outputPathOf w))
   \<and> processAudio (w\<lparr>unlinkInputOk := a, unlinkOutputOk := b\<rparr>) fileId filenameHint trimRange =
       processAudio w fileId filenameHint trimRange
   \<and> onAudio (w\<lparr>unlinkInputOk := a, unlinkOutputOk := b\<rparr>) message = onAudio w message
   \<and> onDocument (w\<lparr>unlinkInputOk := a, unlinkOutputOk := b\<rparr>) message hasNext =
       onDocument w message hasNext"
proof (intro conjI impI)
  show "processAudio w fileId filenameHint trimRange =
     (if \<not> mkdirOk w then ([Mkdir (tmpRoot w)], Inl (Error ExternalFailure))
      else
        (case fileLink w of
           None \<Rightarrow>
             ([Mkdir (tmpRoot w), GetFileLink fileId,
               Unlink (inputPathOf w filenameHint), Unlink (outputPathOf w)],
              Inl (Error ExternalFailure))
         | Some href \<Rightarrow>
             if \<not> downloadOk w then
               ([Mkdir (tmpRoot w), GetFileLink fileId, Download href (inputPathOf w filenameHint),
                 Unlink (inputPathOf w filenameHint), Unlink (outputPathOf w)],
                Inl (Error ExternalFailure))
             else if \<not> chatActionOk w then
               ([Mkdir (tmpRoot w), GetFileLink fileId, Download href (inputPathOf w filenameHint),
                 SendChatAction ''record_voice'',
                 Unlink (inputPathOf w filenameHint), Unlink (outputPathOf w)],
                Inl (Error ExternalFailure))
             else
               (case convertToVoice (inputPathOf w filenameHint) (outputPathOf w) trimRange of
                  Inl e \<Rightarrow>
                    ([Mkdir (tmpRoot w), GetFileLink fileId, Download href (inputPathOf w filenameHint),
                      SendChatAction ''record_voice'',
                      Unlink (inputPathOf w filenameHint), Unlink (outputPathOf w)],
                     Inl e)
                | Inr command \<Rightarrow>
                    if \<not> transcodeOk w then
                      ([Mkdir (tmpRoot w), GetFileLink fileId, Download href (inputPathOf w filenameHint),
                        SendChatAction ''record_voice'', Transcode command,
                        Unlink (inputPathOf w filenameHint), Unlink (outputPathOf w)],
                       Inl (Error ExternalFailure))
                    else
                      ([Mkdir (tmpRoot w), GetFileLink fileId, Download href (inputPathOf w filenameHint),
                        SendChatAction ''record_voice'', Transcode command,
                        ReplyWithVoice (outputPathOf w),
                        Unlink (inputPathOf w filenameHint), Unlink (outputPathOf w)],
                       settled (replyVoiceOk w)))))"
    by (rule processAudio_run)
next
  assume c: "convertToVoice (inputPathOf w filenameHint) (outputPathOf w) trimRange = Inr command"
  from convertToVoice_paths[OF c]
  show "cmd_input command = inputPathOf w filenameHint"
    and "cmd_output command = Some (outputPathOf w)" by simp_all
next
  show "processAudio (w\<lparr>unlinkInputOk := a, unlinkOutputOk := b\<rparr>) fileId filenameHint trimRange =
       processAudio w fileId filenameHint trimRange"
    by (rule processAudio_unlink_irrelevant)
next
  show "onAudio (w\<lparr>unlinkInputOk := a, unlinkOutputOk := b\<rparr>) message = onAudio w message"
    by (simp add: onAudio_def processAudio_unlink_irrelevant call_def
          cong: sum.case_cong error.case_cong option.case_cong)
next
  show "onDocument (w\<lparr>unlinkInputOk := a, unlinkOutputOk := b\<rparr>) message hasNext =
       onDocument w message hasNext"
    by (simp add: onDocument_def processAudio_unlink_irrelevant call_def
          cong: sum.case_cong error.case_cong option.case_cong)
qed

text \<open>
  The theorem in the POSIX world for the hint \<open>voice.mp3\<close>: when the download fails,
  when every call succeeds, and when both deletions fail.
\<close>

theorem C7_cleanup_on_every_exit_witness:
  "processAudio (sampleWorld\<lparr>downloadOk := False\<rparr>) (str ''f1'') (str ''voice.mp3'') None =
     ([Mkdir (str ''/tmp/audio-tools-bot''), GetFileLink (str ''f1''),
       Download (str ''https://files.example/voice'') (str ''/tmp/audio-tools-bot/1700000000000-a.mp3''),
       Unlink (str ''/tmp/audio-tools-bot/1700000000000-a.mp3''),
       Unlink (str ''/tmp/audio-tools-bot/1700000000001-b.ogg'')],
      Inl (Error ExternalFailure))
   \<and> processAudio (sampleWorld\<lparr>downloadOk := True\<rparr>) (str ''f1'') (str ''voice.mp3'') None =
     ([Mkdir (str ''/tmp/audio-tools-bot''), GetFileLink (str ''f1''),
       Download (str ''https://files.example/voice'') (str ''/tmp/audio-tools-bot/1700000000000-a.mp3''),
       SendChatAction ''record_voice'',
       Transcode (voiceCommand (str ''/tmp/audio-tools-bot/1700000000000-a.mp3'')
                    (str ''/tmp/audio-tools-bot/1700000000001-b.ogg'') None None),
       ReplyWithVoice (str ''/tmp/audio-tools-bot/1700000000001-b.ogg''),
       Unlink (str ''/tmp/audio-tools-bot/1700000000000-a.mp3''),
       Unlink (str ''/tmp/audio-tools-bot/1700000000001-b.ogg'')],
      Inr ())
   \<and> processAudio (sampleWorld\<lparr>downloadOk := True, unlinkInputOk := False, unlinkOutputOk := False\<rparr>)
         (str ''f1'') (str ''voice.mp3'') None =
       processAudio (sampleWorld\<lparr>downloadOk := True\<rparr>) (str ''f1'') (str ''voice.mp3'') None"
proof -
  have c: "convertToVoice (str ''/tmp/audio-tools-bot/1700000000000-a.mp3'')
             (str ''/tmp/audio-tools-bot/1700000000001-b.ogg'') None =
           Inr (voiceCommand (str ''/tmp/audio-tools-bot/1700000000000-a.mp3'')
                    (str ''/tmp/audio-tools-bot/1700000000001-b.ogg'') None None)"
    by (simp add: convertToVoice_def Let_def ffmpeg_def outputOptions_def format_def save_def
          voiceOptions_def voiceCommand_def)
  have f: "mkdirOk (sampleWorld\<lparr>downloadOk := ok\<rparr>)"
    "fileLink (sampleWorld\<lparr>downloadOk := ok\<rparr>) = Some (str ''https://files.example/voice'')"
    "downloadOk (sampleWorld\<lparr>downloadOk := ok\<rparr>) = ok"
    "chatActionOk (sampleWorld\<lparr>downloadOk := ok\<rparr>)"
    "transcodeOk (sampleWorld\<lparr>downloadOk := ok\<rparr>)"
    "replyVoiceOk (sampleWorld\<lparr>downloadOk := ok\<rparr>)" for ok
    by (simp_all add: sampleWorld_def)
  note i1 = C7_cleanup_on_every_exit[of "sampleWorld\<lparr>downloadOk := False\<rparr>" "str ''f1''"
      "str ''voice.mp3''" None]
  note i2 = C7_cleanup_on_every_exit[of "sampleWorld\<lparr>downloadOk := True\<rparr>" "str ''f1''"
      "str ''voice.mp3''" None _ False False]
  have a1: "processAudio (sampleWorld\<lparr>downloadOk := False\<rparr>) (str ''f1'') (str ''voice.mp3'') None =
     ([Mkdir (str ''/tmp/audio-tools-bot''), GetFileLink (str ''f1''),
       Download (str ''https://files.example/voice'') (str ''/tmp/audio-tools-bot/1700000000000-a.mp3''),
       Unlink (str ''/tmp/audio-tools-bot/1700000000000-a.mp3''),
       Unlink (str ''/tmp/audio-tools-bot/1700000000001-b.ogg'')],
      Inl (Error ExternalFailure))"
    using i1 by (simp add: f sample_paths)
  have a2: "processAudio (sampleWorld\<lparr>downloadOk := True\<rparr>) (str ''f1'') (str ''voice.mp3'') None =
     ([Mkdir (str ''/tmp/audio-tools-bot''), GetFileLink (str ''f1''),
       Download (str ''https://files.example/voice'') (str ''/tmp/audio-tools-bot/1700000000000-a.mp3''),
       SendChatAction ''record_voice'',
       Transcode (voiceCommand (str ''/tmp/audio-tools-bot/1700000000000-a.mp3'')
                    (str ''/tmp/audio-tools-bot/1700000000001-b.ogg'') None None),
       ReplyWithVoice (str ''/tmp/audio-tools-bot/1700000000001-b.ogg''),
       Unlink (str ''/tmp/audio-tools-bot/1700000000000-a.mp3''),
       Unlink (str ''/tmp/audio-tools-bot/1700000000001-b.ogg'')],
      Inr ())"
    using i2 by (simp add: f sample_paths c settled_def)
  have a3: "processAudio (sampleWorld\<lparr>downloadOk := True, unlinkInputOk := False, unlinkOutputOk := False\<rparr>)
         (str ''f1'') (str ''voice.mp3'') None =
       processAudio (sampleWorld\<lparr>downloadOk := True\<rparr>) (str ''f1'') (str ''voice.mp3'') None"
    using i2 by blast
  show ?thesis using a1 a2 a3 by (intro conjI)
qed

text \<open>
  C4. When parsing the caption or text of a message fails with TimecodeParseError, the
  audio handler, and the document handler for a document that \<open>isAudioDocument\<close>
  accepts, reply with the format hint and do nothing else; for a document that is not
  accepted the document handler only calls the next handler, if there is one. In no case
  is a temporary directory made, a file link resolved, a file downloaded, the transcoder
  run or a file deleted.
\<close>

theorem C4_format_error_aborts:
  "extractTimecodesFromMessage message = Inl (TimecodeParseError r) \<longrightarrow>
     onAudio w message = ([Reply TimecodeHint], settled (replyOk w))
     \<and> (isAudioDocument (msg_document message) \<longrightarrow>
          onDocument w message hasNext = ([Reply TimecodeHint], settled (replyOk w)))
     \<and> (\<not> isAudioDocument (msg_document message) \<longrightarrow>
          onDocument w message hasNext = (if hasNext then ([Next], Inr ()) else ([], Inr ())))
     \<and> \<not> list_ex isTransferEvent (fst (onAudio w message))
     \<and> \<not> list_ex isTransferEvent (fst (onDocument w message hasNext))"
proof
  assume e: "extractTimecodesFromMessage message = Inl (TimecodeParseError r)"
  have a: "onAudio w message = ([Reply TimecodeHint], settled (replyOk w))"
    using e by (simp add: onAudio_def call_def)
  have d1: "isAudioDocument (msg_document message) \<Longrightarrow>
          onDocument w message hasNext = ([Reply TimecodeHint], settled (replyOk w))"
    using e by (simp add: onDocument_def call_def)
  have d2: "\<not> isAudioDocument (msg_document message) \<Longrightarrow>
          onDocument w message hasNext = (if hasNext then ([Next], Inr ()) else ([], Inr ()))"
    by (simp add: onDocument_def)
  have t1: "\<not> list_ex isTransferEvent (fst (onAudio w message))"
    by (simp add: a)
  have t2: "\<not> list_ex isTransferEvent (fst (onDocument w message hasNext))"
    using d1 d2 by (cases "isAudioDocument (msg_document message)") simp_all
  from a d1 d2 t1 t2 show "onAudio w message = ([Reply TimecodeHint], settled (replyOk w))
     \<and> (isAudioDocument (msg_document message) \<longrightarrow>
          onDocument w message hasNext = ([Reply TimecodeHint], settled (replyOk w)))
     \<and> (\<not> isAudioDocument (msg_document message) \<longrightarrow>
          onDocument w message hasNext = (if hasNext then ([Next], Inr ()) else ([], Inr ())))
     \<and> \<not> list_ex isTransferEvent (fst (onAudio w message))
     \<and> \<not> list_ex isTransferEvent (fst (onDocument w message hasNext))"
    by (intro conjI impI)
qed

text \<open>
  The theorem at an audio file \<open>song.mp3\<close> sent with the caption \<open>40:10\<close>, as an audio
  message and as a document.
\<close>

theorem C4_format_error_aborts_witness:
  "extractTimecodesFromMessage
     \<lparr>msg_caption = Some (str ''40:10''), msg_text = None,
      msg_audio = Some \<lparr>file_id = str ''f1'', file_unique_id = str ''u1'',
                        file_name = Some (str ''song.mp3''), mime_type = Some (str ''audio/mpeg'')\<rparr>,
      msg_document = Some \<lparr>file_id = str ''f1'', file_unique_id = str ''u1'',
                        file_name = Some (str ''song.mp3''), mime_type = Some (str ''audio/mpeg'')\<rparr>\<rparr>
     = Inl (TimecodeParseError EndNotAfterStart)
   \<and> onAudio sampleWorld
     \<lparr>msg_caption = Some (str ''40:10''), msg_text = None,
      msg_audio = Some \<lparr>file_id = str ''f1'', file_unique_id = str ''u1'',
                        file_name = Some (str ''song.mp3''), mime_type = Some (str ''audio/mpeg'')\<rparr>,
      msg_document = Some \<lparr>file_id = str ''f1'', file_unique_id = str ''u1'',
                        file_name = Some (str ''song.mp3''), mime_type = Some (str ''audio/mpeg'')\<rparr>\<rparr>
     = ([Reply TimecodeHint], Inr ())
   \<and> onDocument sampleWorld
     \<lparr>msg_caption = Some (str ''40:10''), msg_text = None,
      msg_audio = Some \<lparr>file_id = str ''f1'', file_unique_id = str ''u1'',
                        file_name = Some (str ''song.mp3''), mime_type = Some (str ''audio/mpeg'')\<rparr>,
      msg_document = Some \<lparr>file_id = str ''f1'', file_unique_id = str ''u1'',
                        file_name = Some (str ''song.mp3''), mime_type = Some (str ''audio/mpeg'')\<rparr>\<rparr>
     True
     = ([Reply TimecodeHint], Inr ())"
proof -
  let ?file = "\<lparr>file_id = str ''f1'', file_unique_id = str ''u1'',
                        file_name = Some (str ''song.mp3''), mime_type = Some (str ''audio/mpeg'')\<rparr>"
  let ?msg = "\<lparr>msg_caption = Some (str ''40:10''), msg_text = None,
      msg_audio = Some ?file, msg_document = Some ?file\<rparr>"
  have e: "extractTimecodesFromMessage ?msg = Inl (TimecodeParseError EndNotAfterStart)"
    by (rule reversed_caption_fails)
  have i: "isAudioDocument (msg_document ?msg)"
    by (simp add: isAudioDocument_iff audio_eval)
  have s: "settled (replyOk sampleWorld) = Inr ()" by (simp add: settled_def sampleWorld_def)
  note inst = C4_format_error_aborts[of ?msg EndNotAfterStart sampleWorld True]
  show ?thesis using inst e i s by simp
qed

text \<open>
  C4 read for every document message does not hold: for \<open>report.pdf\<close> with the caption
  \<open>40:10\<close> the document handler sends no format hint, it calls the next handler.
\<close>

theorem C4_non_audio_document_counterexample:
  "extractTimecodesFromMessage
     \<lparr>msg_caption = Some (str ''40:10''), msg_text = None, msg_audio = None,
      msg_document = Some \<lparr>file_id = str ''f3'', file_unique_id = str ''u3'',
         file_name = Some (str ''report.pdf''), mime_type = Some (str ''application/pdf'')\<rparr>\<rparr>
     = Inl (TimecodeParseError EndNotAfterStart)
   \<and> onDocument sampleWorld
     \<lparr>msg_caption = Some (str ''40:10''), msg_text = None, msg_audio = None,
      msg_document = Some \<lparr>file_id = str ''f3'', file_unique_id = str ''u3'',
         file_name = Some (str ''report.pdf''), mime_type = Some (str ''application/pdf'')\<rparr>\<rparr>
     True
     = ([Next], Inr ())"
proof -
  have n: "\<not> isAudioDocument (Some \<lparr>file_id = str ''f3'', file_unique_id = str ''u3'',
         file_name = Some (str ''report.pdf''), mime_type = Some (str ''application/pdf'')\<rparr>)"
    by (simp add: isAudioDocument_iff audio_eval)
  show ?thesis using n by (simp add: reversed_caption_fails onDocument_def)
qed

end
